theory Spec2Isabelle
  imports Complex_Main "HOL-Library.Sublist"
begin

section \<open>JavaScript values that the rate limiter inspects\<close>

text \<open>
  The functions of \<^verbatim>\<open>rate-limiter.ts\<close> receive a thrown value of type
  \<^verbatim>\<open>unknown\<close> and look at three things only: whether it is an instance of
  \<^verbatim>\<open>Error\<close> (and then its \<^verbatim>\<open>message\<close>), whether it is an object
  with a \<^verbatim>\<open>headers\<close> property, and whether that property is an object with an
  \<^verbatim>\<open>x-rate-limit-reset\<close> entry. A thrown value is modelled by exactly these
  observations.

  The numbers of the rate limiter are modelled by the reals: the rounding of its sums and
  products of millisecond counts is abstracted away, and the one non-finite value the
  code can produce, \<^verbatim>\<open>NaN\<close> out of \<^verbatim>\<open>parseInt\<close>, is written out. Strings are
  the bytes of their UTF-8 encoding; the two patterns searched for are ASCII, so
  searching bytes and searching UTF-16 code units agree.
\<close>

datatype js_num = NaN | Num real

datatype js_headers =
    NoHeaders
  | HeadersNotObject
  | HeadersObject "string option"

datatype js_value =
    JsUndefined
  | JsNull
  | JsPrimitive string
  | JsError string js_headers
  | JsObject "string option" js_headers

text \<open>
  \<open>NoHeaders\<close>: \<^verbatim>\<open>"headers" in err\<close> is false. \<open>HeadersNotObject\<close>: the
  property is there but falsy or not an object. \<open>HeadersObject r\<close>: it is an object and
  \<open>r\<close> is its \<^verbatim>\<open>x-rate-limit-reset\<close> entry (\<open>None\<close> for undefined).
  \<open>JsError msg h\<close> is an instance of \<^verbatim>\<open>Error\<close>; \<open>JsObject msg h\<close> is any
  other object, with its \<^verbatim>\<open>message\<close> property if it has one; \<open>JsPrimitive\<close> is
  a thrown boolean, number, string, symbol or function.
\<close>

subsection \<open>String.prototype.includes\<close>

fun str_includes :: "string \<Rightarrow> string \<Rightarrow> bool" where
  "str_includes [] pat = (pat = [])"
| "str_includes (c # cs) pat = (prefix pat (c # cs) \<or> str_includes cs pat)"

subsection \<open>is429\<close>

fun is429 :: "js_value \<Rightarrow> bool" where
  "is429 (JsError message h) =
     (str_includes message ''429'' \<or> str_includes message ''Too Many Requests'')"
| "is429 _ = False"

subsection \<open>parseInt with radix 10\<close>

text \<open>
  \<^verbatim>\<open>parseInt(s, 10)\<close> skips leading white space, reads an optional sign, and converts
  the longest prefix of decimal digits that follows; with no digit there it is NaN. A
  string is the bytes of its UTF-8 encoding, and white space is what JavaScript takes for
  it: tab, line feed, vertical tab, form feed, carriage return and space, of one byte;
  U+00A0, of two bytes; U+1680, U+2000 to U+200A, U+2028, U+2029, U+202F, U+205F, U+3000
  and U+FEFF, of three bytes.
\<close>

definition isWhiteSpace :: "char \<Rightarrow> bool" where
  "isWhiteSpace c = (c \<in> set [CHR 0x09, CHR 0x0A, CHR 0x0B, CHR 0x0C, CHR 0x0D, CHR 0x20])"

definition isWhiteSpace2 :: "char \<Rightarrow> char \<Rightarrow> bool" where
  "isWhiteSpace2 a b = (a = CHR 0xC2 \<and> b = CHR 0xA0)"

definition isWhiteSpace3 :: "char \<Rightarrow> char \<Rightarrow> char \<Rightarrow> bool" where
  "isWhiteSpace3 a b c =
     (a = CHR 0xE1 \<and> b = CHR 0x9A \<and> c = CHR 0x80
      \<or> a = CHR 0xE2 \<and> b = CHR 0x80
          \<and> (128 \<le> (of_char c :: nat) \<and> (of_char c :: nat) \<le> 138
              \<or> c = CHR 0xA8 \<or> c = CHR 0xA9 \<or> c = CHR 0xAF)
      \<or> a = CHR 0xE2 \<and> b = CHR 0x81 \<and> c = CHR 0x9F
      \<or> a = CHR 0xE3 \<and> b = CHR 0x80 \<and> c = CHR 0x80
      \<or> a = CHR 0xEF \<and> b = CHR 0xBB \<and> c = CHR 0xBF)"

fun skipWhiteSpace :: "string \<Rightarrow> string" where
  "skipWhiteSpace (a # b # c # s) =
     (if isWhiteSpace a then skipWhiteSpace (b # c # s)
      else if isWhiteSpace2 a b then skipWhiteSpace (c # s)
      else if isWhiteSpace3 a b c then skipWhiteSpace s
      else a # b # c # s)"
| "skipWhiteSpace [a, b] =
     (if isWhiteSpace a then skipWhiteSpace [b]
      else if isWhiteSpace2 a b then []
      else [a, b])"
| "skipWhiteSpace [a] = (if isWhiteSpace a then [] else [a])"
| "skipWhiteSpace [] = []"

definition isDigit :: "char \<Rightarrow> bool" where
  "isDigit c = (48 \<le> (of_char c :: nat) \<and> (of_char c :: nat) \<le> 57)"

definition digitValue :: "char \<Rightarrow> nat" where
  "digitValue c = of_char c - 48"

definition decimal :: "string \<Rightarrow> nat" where
  "decimal ds = foldl (\<lambda>acc c. 10 * acc + digitValue c) 0 ds"

definition parseInt :: "string \<Rightarrow> js_num" where
  "parseInt s =
    (let t = skipWhiteSpace s;
         neg = (t \<noteq> [] \<and> hd t = CHR ''-'');
         u = (if t \<noteq> [] \<and> (hd t = CHR ''-'' \<or> hd t = CHR ''+'') then tl t else t);
         ds = takeWhile isDigit u
     in if ds = [] then NaN
        else Num (if neg then - real (decimal ds) else real (decimal ds)))"

subsection \<open>Arithmetic that propagates NaN\<close>

fun js_arith :: "(real \<Rightarrow> real \<Rightarrow> real) \<Rightarrow> js_num \<Rightarrow> js_num \<Rightarrow> js_num" where
  "js_arith f (Num a) (Num b) = Num (f a b)"
| "js_arith f _ _ = NaN"

section \<open>The rate limiter\<close>

record RateLimitState =
  endpoint :: string
  remaining :: real
  resetAt :: real
  lastHit :: real

record RateLimiterOpts =
  opt_maxRetries :: "int option"
  opt_baseDelay :: "real option"

record config =
  maxRetries :: int
  baseDelay :: real

text \<open>The constructor: \<^verbatim>\<open>opts.maxRetries ?? 3\<close>, \<^verbatim>\<open>opts.baseDelay ?? 15_000\<close>.\<close>

definition new_RateLimiter :: "RateLimiterOpts \<Rightarrow> config" where
  "new_RateLimiter opts =
     \<lparr>maxRetries = (case opt_maxRetries opts of None \<Rightarrow> 3 | Some n \<Rightarrow> n),
      baseDelay = (case opt_baseDelay opts of None \<Rightarrow> 15000 | Some d \<Rightarrow> d)\<rparr>"

text \<open>
  What a call changes: the map \<^verbatim>\<open>this.limits\<close>, and the world around it. The world is
  observed through three counters of the model: \<open>reads\<close>, how many times
  \<^verbatim>\<open>Date.now()\<close> has been evaluated; \<open>invoked\<close>, how many times a thunk has been
  invoked; \<open>effects\<close>, the sleeps and log lines in the order they happened (most recent
  first). The clock is a parameter \<open>clock\<close>: \<open>clock k\<close> is what the \<open>k\<close>-th evaluation of
  \<^verbatim>\<open>Date.now()\<close> returns, so time may pass, or not, between any two readings. The
  thunk is a parameter \<open>fn\<close>: \<open>fn k\<close> is how the \<open>k\<close>-th invocation settles, \<open>Inr\<close> a result
  or \<open>Inl\<close> the value thrown. The thunk's promise is taken to settle, the log callback to
  return, and nobody else to write \<^verbatim>\<open>this.limits\<close> while a call is running. A log
  line is kept as the values interpolated into its text.
\<close>

datatype log_line =
    PreWaiting string int
  | RetryNotice string nat int int

datatype effect = Slept real | Logged log_line

record world =
  limits :: "string \<rightharpoonup> RateLimitState"
  reads :: nat
  invoked :: nat
  effects :: "effect list"

definition initial :: world where
  "initial = \<lparr>limits = Map.empty, reads = 0, invoked = 0, effects = []\<rparr>"

definition date_now :: "(nat \<Rightarrow> real) \<Rightarrow> world \<Rightarrow> real \<times> world" where
  "date_now clock w = (clock (reads w), w\<lparr>reads := Suc (reads w)\<rparr>)"

definition sleep :: "real \<Rightarrow> world \<Rightarrow> world" where
  "sleep ms w = w\<lparr>effects := Slept ms # effects w\<rparr>"

definition log :: "log_line \<Rightarrow> world \<Rightarrow> world" where
  "log msg w = w\<lparr>effects := Logged msg # effects w\<rparr>"

subsection \<open>extractResetSeconds\<close>

fun headers_of :: "js_value \<Rightarrow> js_headers" where
  "headers_of (JsError message h) = h"
| "headers_of (JsObject message h) = h"
| "headers_of _ = NoHeaders"

definition extractResetSeconds ::
  "(nat \<Rightarrow> real) \<Rightarrow> js_value \<Rightarrow> world \<Rightarrow> js_num option \<times> world" where
  "extractResetSeconds clock err w =
    (case headers_of err of
       HeadersObject (Some reset) \<Rightarrow>
         if reset \<noteq> [] then
           (let resetTime = js_arith (*) (parseInt reset) (Num 1000);
                (now, w') = date_now clock w
            in (Some (js_arith max (Num 0)
                        (js_arith (/) (js_arith (-) resetTime (Num now)) (Num 1000))), w'))
         else (None, w)
     | _ \<Rightarrow> (None, w))"

subsection \<open>getWaitMs\<close>

text \<open>
  \<^verbatim>\<open>resetAfter && resetAfter > 0\<close>: null and NaN are falsy, and so is 0.
\<close>

definition getWaitMs ::
  "config \<Rightarrow> (nat \<Rightarrow> real) \<Rightarrow> js_value \<Rightarrow> nat \<Rightarrow> world \<Rightarrow> real \<times> world" where
  "getWaitMs cfg clock err attempt w =
    (let (resetAfter, w') = extractResetSeconds clock err w in
     case resetAfter of
       Some (Num h) \<Rightarrow>
         if h \<noteq> 0 \<and> h > 0 then (h * 1000 + 1000, w')
         else (baseDelay cfg * 2 ^ attempt, w')
     | Some NaN \<Rightarrow> (baseDelay cfg * 2 ^ attempt, w')
     | None \<Rightarrow> (baseDelay cfg * 2 ^ attempt, w'))"

subsection \<open>call\<close>

text \<open>The pre-check of \<^verbatim>\<open>call\<close>: wait first when the endpoint is known to be exhausted.\<close>

definition pre_check :: "(nat \<Rightarrow> real) \<Rightarrow> string \<Rightarrow> world \<Rightarrow> world" where
  "pre_check clock label w =
    (case limits w label of
       None \<Rightarrow> w
     | Some state \<Rightarrow>
         if remaining state = 0 then
           (let (now1, w1) = date_now clock w in
            if resetAt state > now1 then
              (let (now2, w2) = date_now clock w1;
                   waitMs = resetAt state - now2 + 500
               in sleep waitMs (log (PreWaiting label \<lceil>waitMs / 1000\<rceil>) w2))
            else w1)
         else w)"

text \<open>
  One pass through the body of the \<^verbatim>\<open>for\<close> loop: it returns or throws out of
  \<^verbatim>\<open>call\<close> (\<open>Return\<close>), or goes on to the next attempt with \<^verbatim>\<open>lastError\<close>
  set (\<open>Continue\<close>).
\<close>

datatype 'a iteration = Return "js_value + 'a" world | Continue js_value world

definition attempt_body ::
  "config \<Rightarrow> (nat \<Rightarrow> real) \<Rightarrow> (nat \<Rightarrow> js_value + 'a) \<Rightarrow> string \<Rightarrow> nat \<Rightarrow> world
     \<Rightarrow> 'a iteration" where
  "attempt_body cfg clock fn label attempt w =
    (let w1 = w\<lparr>invoked := Suc (invoked w)\<rparr> in
     case fn (invoked w) of
       Inr result \<Rightarrow>
         (let (now, w2) = date_now clock w1 in
          Return (Inr result)
            (w2\<lparr>limits := (limits w2)(label \<mapsto>
                 \<lparr>endpoint = label, remaining = 1, resetAt = 0, lastHit = now\<rparr>)\<rparr>))
     | Inl err \<Rightarrow>
         if \<not> is429 err then Return (Inl err) w1
         else
           (let (waitMs, w2) = getWaitMs cfg clock err attempt w1;
                (now1, w3) = date_now clock w2;
                (now2, w4) = date_now clock w3;
                w5 = w4\<lparr>limits := (limits w4)(label \<mapsto>
                       \<lparr>endpoint = label, remaining = 0, resetAt = now1 + waitMs,
                        lastHit = now2\<rparr>)\<rparr>
            in if int attempt < maxRetries cfg then
                 Continue err
                   (sleep waitMs
                      (log (RetryNotice label (attempt + 1) (maxRetries cfg)
                              \<lceil>waitMs / 1000\<rceil>) w5))
               else Continue err w5))"

text \<open>
  The loop \<^verbatim>\<open>for (let attempt = 0; attempt <= this.maxRetries; attempt++)\<close> followed by
  \<^verbatim>\<open>throw lastError\<close>.
\<close>

function attempts ::
  "config \<Rightarrow> (nat \<Rightarrow> real) \<Rightarrow> (nat \<Rightarrow> js_value + 'a) \<Rightarrow> string \<Rightarrow> nat \<Rightarrow> js_value
     \<Rightarrow> world \<Rightarrow> (js_value + 'a) \<times> world" where
  "attempts cfg clock fn label attempt lastError w =
    (if int attempt \<le> maxRetries cfg then
       (case attempt_body cfg clock fn label attempt w of
          Return r w' \<Rightarrow> (r, w')
        | Continue err w' \<Rightarrow> attempts cfg clock fn label (Suc attempt) err w')
     else (Inl lastError, w))"
  by pat_completeness auto
termination
  by (relation "measure (\<lambda>(cfg, clock, fn, label, attempt, lastError, w).
        nat (maxRetries cfg + 1 - int attempt))") auto

declare attempts.simps [simp del]

definition call ::
  "config \<Rightarrow> (nat \<Rightarrow> real) \<Rightarrow> (nat \<Rightarrow> js_value + 'a) \<Rightarrow> string \<Rightarrow> world
     \<Rightarrow> (js_value + 'a) \<times> world" where
  "call cfg clock fn label w =
     attempts cfg clock fn label 0 JsUndefined (pre_check clock label w)"

subsection \<open>getState and isLimited\<close>

definition getState :: "string \<Rightarrow> world \<Rightarrow> RateLimitState option" where
  "getState label w = limits w label"

definition isLimited :: "(nat \<Rightarrow> real) \<Rightarrow> string \<Rightarrow> world \<Rightarrow> bool \<times> world" where
  "isLimited clock label w =
    (case limits w label of
       None \<Rightarrow> (False, w)
     | Some state \<Rightarrow>
         if remaining state = 0 then
           (let (now, w') = date_now clock w in (resetAt state > now, w'))
         else (False, w))"

subsection \<open>The entry a rate-limit failure writes\<close>

text \<open>
  The entry that \<^verbatim>\<open>call\<close> stores under \<open>label\<close> when the thunk has just failed with
  the rate-limit error \<open>err\<close> at the attempt \<open>attempt\<close>, in the world \<open>w\<close>: the wait is
  computed for this error and this attempt, then the clock is read for \<open>resetAt\<close> and
  read again for \<open>lastHit\<close>.
\<close>

definition exhausted_entry ::
  "config \<Rightarrow> (nat \<Rightarrow> real) \<Rightarrow> string \<Rightarrow> js_value \<Rightarrow> nat \<Rightarrow> world \<Rightarrow> RateLimitState" where
  "exhausted_entry cfg clock label err attempt w =
     \<lparr>endpoint = label, remaining = 0,
      resetAt = clock (reads (snd (getWaitMs cfg clock err attempt w)))
                + fst (getWaitMs cfg clock err attempt w),
      lastHit = clock (Suc (reads (snd (getWaitMs cfg clock err attempt w))))\<rparr>"

subsection \<open>The invariant of the state store\<close>

text \<open>
  What an entry stored under \<open>label\<close> looks like when \<open>r\<close> clock readings have been
  taken: it is the healthy entry written after a success, with \<open>lastHit\<close> one of the
  readings; or it is the entry written for a rate-limit error \<open>err\<close> at an attempt within
  the budget, met in a world \<open>w0\<close> in which the earlier attempts of the call have taken
  their readings, and its \<open>resetAt\<close> lies after the reading it was computed from.
\<close>

definition entry_ok :: "config \<Rightarrow> (nat \<Rightarrow> real) \<Rightarrow> nat \<Rightarrow> string \<Rightarrow> RateLimitState \<Rightarrow> bool" where
  "entry_ok cfg clock r label st \<longleftrightarrow>
     (\<exists>i<r. st = \<lparr>endpoint = label, remaining = 1, resetAt = 0, lastHit = clock i\<rparr>)
     \<or> (\<exists>err attempt w0. is429 err \<and> int attempt \<le> maxRetries cfg
           \<and> 2 * attempt \<le> reads w0
           \<and> Suc (reads (snd (getWaitMs cfg clock err attempt w0))) < r
           \<and> st = exhausted_entry cfg clock label err attempt w0
           \<and> clock (reads (snd (getWaitMs cfg clock err attempt w0))) < resetAt st)"

definition store_ok :: "config \<Rightarrow> (nat \<Rightarrow> real) \<Rightarrow> world \<Rightarrow> bool" where
  "store_ok cfg clock w \<longleftrightarrow>
     (\<forall>label st. limits w label = Some st \<longrightarrow> entry_ok cfg clock (reads w) label st)"

section \<open>The scheduler client\<close>

text \<open>
  The network is a parameter \<open>fetch\<close>: it maps a request to the value the promise rejects
  with (\<open>Inl\<close>) or to a response (\<open>Inr\<close>). A response is its status and the way its
  \<^verbatim>\<open>text()\<close> and \<^verbatim>\<open>json()\<close> promises settle. Each operation returns, beside its
  outcome, the requests it issued, in order. A request body is the text that
  \<^verbatim>\<open>JSON.stringify\<close> makes of a truthy body, \<open>None\<close> for a body left out.
\<close>

record SchedulerConfig =
  baseUrl :: string
  apiKey :: string

record http_request =
  req_url :: string
  req_method :: string
  req_headers :: "(string \<times> string) list"
  req_body :: "string option"

record 'j http_response =
  status :: nat
  res_text :: "js_value + string"
  res_json :: "js_value + 'j"

definition res_ok :: "'j http_response \<Rightarrow> bool" where
  "res_ok res = (200 \<le> status res \<and> status res \<le> 299)"

text \<open>The constructor: \<^verbatim>\<open>config.baseUrl.replace(/\/$/, "")\<close>.\<close>

definition new_Scheduler :: "SchedulerConfig \<Rightarrow> SchedulerConfig" where
  "new_Scheduler config =
     \<lparr>baseUrl = (if baseUrl config \<noteq> [] \<and> last (baseUrl config) = CHR ''/''
                 then butlast (baseUrl config) else baseUrl config),
      apiKey = apiKey config\<rparr>"

text \<open>A number in a template string: its decimal digits.\<close>

fun show_nat :: "nat \<Rightarrow> string" where
  "show_nat n =
     (if n < 10 then [char_of (48 + n)]
      else show_nat (n div 10) @ [char_of (48 + n mod 10)])"

declare show_nat.simps [simp del]

definition request ::
  "SchedulerConfig \<Rightarrow> (http_request \<Rightarrow> js_value + 'j http_response) \<Rightarrow> string \<Rightarrow> string
     \<Rightarrow> string option \<Rightarrow> (js_value + 'j) \<times> http_request list" where
  "request this fetch method path body =
    (let url = baseUrl this @ path;
         req = \<lparr>req_url = url, req_method = method,
                req_headers = [(''Content-Type'', ''application/json''),
                               (''Authorization'', ''Bearer '' @ apiKey this)],
                req_body = body\<rparr>
     in case fetch req of
          Inl err \<Rightarrow> (Inl err, [req])
        | Inr res \<Rightarrow>
            if \<not> res_ok res then
              (let text = (case res_text res of Inl e \<Rightarrow> [] | Inr t \<Rightarrow> t)
               in (Inl (JsError (''Scheduler '' @ method @ '' '' @ path @ '': ''
                                   @ show_nat (status res) @ '' '' @ text) NoHeaders),
                   [req]))
            else (res_json res, [req]))"

definition health ::
  "SchedulerConfig \<Rightarrow> (http_request \<Rightarrow> js_value + 'j http_response)
     \<Rightarrow> (js_value + 'j) \<times> http_request list" where
  "health this fetch =
    (let req = \<lparr>req_url = baseUrl this @ ''/health'', req_method = ''GET'',
                req_headers = [], req_body = None\<rparr>
     in case fetch req of
          Inl err \<Rightarrow> (Inl err, [req])
        | Inr res \<Rightarrow> (res_json res, [req]))"

definition schedule ::
  "SchedulerConfig \<Rightarrow> (http_request \<Rightarrow> js_value + 'j http_response) \<Rightarrow> string
     \<Rightarrow> (js_value + 'j) \<times> http_request list" where
  "schedule this fetch opts = request this fetch ''POST'' ''/schedule'' (Some opts)"

definition scheduleBatch ::
  "SchedulerConfig \<Rightarrow> (http_request \<Rightarrow> js_value + 'j http_response) \<Rightarrow> string
     \<Rightarrow> (js_value + 'j) \<times> http_request list" where
  "scheduleBatch this fetch opts = request this fetch ''POST'' ''/schedule-batch'' (Some opts)"

definition scheduleThread ::
  "SchedulerConfig \<Rightarrow> (http_request \<Rightarrow> js_value + 'j http_response) \<Rightarrow> string
     \<Rightarrow> (js_value + 'j) \<times> http_request list" where
  "scheduleThread this fetch opts = request this fetch ''POST'' ''/schedule-thread'' (Some opts)"

datatype post_status = Pending | Posted | StatusFailed | Cancelled

fun status_text :: "post_status \<Rightarrow> string" where
  "status_text Pending = ''pending''"
| "status_text Posted = ''posted''"
| "status_text StatusFailed = ''failed''"
| "status_text Cancelled = ''cancelled''"

definition listPosts ::
  "SchedulerConfig \<Rightarrow> (http_request \<Rightarrow> js_value + 'j http_response) \<Rightarrow> post_status option
     \<Rightarrow> (js_value + 'j) \<times> http_request list" where
  "listPosts this fetch st =
    (let path = (case st of Some v \<Rightarrow> ''/posts?status='' @ status_text v | None \<Rightarrow> ''/posts'')
     in request this fetch ''GET'' path None)"

definition cancel ::
  "SchedulerConfig \<Rightarrow> (http_request \<Rightarrow> js_value + 'j http_response) \<Rightarrow> string
     \<Rightarrow> (js_value + 'j) \<times> http_request list" where
  "cancel this fetch opts = request this fetch ''POST'' ''/cancel'' (Some opts)"

section \<open>Article metrics\<close>

record TweetMetrics =
  likes :: int
  retweets :: int
  replies :: int
  quotes :: int
  bookmarks :: int
  impressions :: int

record TweetData =
  tweet_id :: string
  tweet_text :: string
  authorId :: "string option"
  authorUsername :: "string option"
  createdAt :: "string option"
  metrics :: "TweetMetrics option"

datatype rating = Exceptional | Good | Ok | Failed

record ArticleMetrics =
  article_id :: string
  article_text :: string
  article_impressions :: int
  article_bookmarks :: int
  article_likes :: int
  article_retweets :: int
  article_replies :: int
  article_quotes :: int
  bookmarkRate :: real
  rating :: rating

text \<open>
  The arithmetic of \<^verbatim>\<open>measureArticle\<close> is done in IEEE doubles. The model computes in
  the reals and rounds the result of every division and multiplication with a parameter
  \<open>rnd\<close>, the rounding of a real number to a double. A count below \<open>2 ^ 53\<close> is a double
  as it stands. \<^verbatim>\<open>Math.round\<close> gives the nearest integer, a half upwards, exactly.
\<close>

definition math_round :: "real \<Rightarrow> int" where
  "math_round x = \<lfloor>x + 1 / 2\<rfloor>"

text \<open>
  What the theorems use of the rounding to a double (round to nearest, as JavaScript
  does): it is monotone; 0, 2, 5 and 8 are doubles; the doubles nearest to 2/25, 1/20 and
  1/50 are not below them; and in the range from \<open>2 ^ -60\<close> to \<open>2 ^ 60\<close>, far from
  overflow and underflow, the relative error is at most \<open>2 ^ -53\<close>.
\<close>

definition double_rounding :: "(real \<Rightarrow> real) \<Rightarrow> bool" where
  "double_rounding rnd \<longleftrightarrow>
     (\<forall>x y. x \<le> y \<longrightarrow> rnd x \<le> rnd y)
     \<and> rnd 0 = 0 \<and> rnd 2 = 2 \<and> rnd 5 = 5 \<and> rnd 8 = 8
     \<and> 2 / 25 \<le> rnd (2 / 25) \<and> 1 / 20 \<le> rnd (1 / 20) \<and> 1 / 50 \<le> rnd (1 / 50)
     \<and> (\<forall>x. 1 / 2 ^ 60 \<le> x \<and> x \<le> 2 ^ 60 \<longrightarrow> \<bar>rnd x - x\<bar> \<le> x / 2 ^ 53)"

text \<open>The local constant \<^verbatim>\<open>bookmarkRate\<close> and the rating chain of \<^verbatim>\<open>measureArticle\<close>.\<close>

definition bookmark_rate :: "(real \<Rightarrow> real) \<Rightarrow> TweetMetrics \<Rightarrow> real" where
  "bookmark_rate rnd m =
     (if impressions m > 0
      then rnd (rnd (real_of_int (bookmarks m) / real_of_int (impressions m)) * 100) else 0)"

definition rating_of :: "real \<Rightarrow> rating" where
  "rating_of r =
     (if r \<ge> 8 then Exceptional
      else if r \<ge> 5 then Good
      else if r \<ge> 2 then Ok
      else Failed)"

text \<open>
  \<open>measureArticle\<close> takes what \<^verbatim>\<open>await getTweet(client, rl, tweetId)\<close> returned: \<open>None\<close>
  for null.
\<close>

definition measureArticle :: "(real \<Rightarrow> real) \<Rightarrow> TweetData option \<Rightarrow> ArticleMetrics option" where
  "measureArticle rnd tweet =
    (case tweet of
       None \<Rightarrow> None
     | Some t \<Rightarrow>
        (case metrics t of
           None \<Rightarrow> None
         | Some m \<Rightarrow>
            Some \<lparr>article_id = tweet_id t,
                  article_text = take 120 (tweet_text t),
                  article_impressions = impressions m,
                  article_bookmarks = bookmarks m,
                  article_likes = likes m,
                  article_retweets = retweets m,
                  article_replies = replies m,
                  article_quotes = quotes m,
                  bookmarkRate =
                    rnd (real_of_int (math_round (rnd (bookmark_rate rnd m * 100))) / 100),
                  rating = rating_of (bookmark_rate rnd m)\<rparr>))"

text \<open>The bookmark rate as an exact number: bookmarks / impressions * 100, and 0 at 0.\<close>

definition exact_rate :: "TweetMetrics \<Rightarrow> real" where
  "exact_rate m =
     (if impressions m = 0 then 0
      else real_of_int (bookmarks m) / real_of_int (impressions m) * 100)"

section \<open>Credentials from the environment\<close>

text \<open>
  \<^verbatim>\<open>process.env\<close> is a map from variable names to strings; an unset variable reads as
  undefined. The fields of the result hold what the environment held.
\<close>

record CosmoEnv =
  consumerKey :: "string option"
  consumerSecret :: "string option"
  accessToken :: "string option"
  accessTokenSecret :: "string option"
  bearerToken :: "string option"
  schedulerUrl :: "string option"
  schedulerKey :: "string option"

text \<open>\<^verbatim>\<open>!v\<close> for a string or undefined: undefined and the empty string are falsy.\<close>

fun falsy :: "string option \<Rightarrow> bool" where
  "falsy None = True"
| "falsy (Some v) = (v = [])"

fun join :: "string \<Rightarrow> string list \<Rightarrow> string" where
  "join sep [] = []"
| "join sep [x] = x"
| "join sep (x # y # ys) = x @ sep @ join sep (y # ys)"

definition envFromProcess :: "(string \<rightharpoonup> string) \<Rightarrow> js_value + CosmoEnv" where
  "envFromProcess env =
    (let required =
           [(''consumerKey'', env ''X_CONSUMER_KEY''),
            (''consumerSecret'', env ''X_CONSUMER_SECRET''),
            (''accessToken'', env ''X_ACCESS_TOKEN''),
            (''accessTokenSecret'', env ''X_ACCESS_TOKEN_SECRET''),
            (''bearerToken'', env ''X_BEARER_TOKEN'')];
         missing = map fst (filter (\<lambda>(k, v). falsy v) required)
     in if length missing > 0 then
          Inl (JsError (''Missing env vars: '' @ join '', '' missing) NoHeaders)
        else
          Inr \<lparr>consumerKey = env ''X_CONSUMER_KEY'',
               consumerSecret = env ''X_CONSUMER_SECRET'',
               accessToken = env ''X_ACCESS_TOKEN'',
               accessTokenSecret = env ''X_ACCESS_TOKEN_SECRET'',
               bearerToken = env ''X_BEARER_TOKEN'',
               schedulerUrl = (case env ''SCHEDULER_URL'' of
                                 Some u \<Rightarrow> Some u
                               | None \<Rightarrow> env ''SCHEDULER_API_URL''),
               schedulerKey = env ''SCHEDULER_API_KEY''\<rparr>)"

text \<open>
  The five required variables, each with the field of the result it fills, in the order
  of the object literal \<^verbatim>\<open>required\<close>.
\<close>

definition required_vars :: "(string \<times> string) list" where
  "required_vars =
     [(''X_CONSUMER_KEY'', ''consumerKey''),
      (''X_CONSUMER_SECRET'', ''consumerSecret''),
      (''X_ACCESS_TOKEN'', ''accessToken''),
      (''X_ACCESS_TOKEN_SECRET'', ''accessTokenSecret''),
      (''X_BEARER_TOKEN'', ''bearerToken'')]"

section \<open>Properties of the error classifier\<close>

lemma str_includes_iff: "str_includes s pat \<longleftrightarrow> (\<exists>ps ss. s = ps @ pat @ ss)"
proof (induction s)
  case Nil
  then show ?case by auto
next
  case (Cons c cs)
  show ?case
  proof
    assume "str_includes (c # cs) pat"
    then consider "prefix pat (c # cs)" | "str_includes cs pat" by auto
    then show "\<exists>ps ss. c # cs = ps @ pat @ ss"
    proof cases
      case 1
      then obtain zs where "c # cs = pat @ zs" by (auto simp: prefix_def)
      then have "c # cs = [] @ pat @ zs" by simp
      then show ?thesis by blast
    next
      case 2
      with Cons.IH obtain ps ss where "cs = ps @ pat @ ss" by blast
      then have "c # cs = (c # ps) @ pat @ ss" by simp
      then show ?thesis by blast
    qed
  next
    assume "\<exists>ps ss. c # cs = ps @ pat @ ss"
    then obtain ps ss where eq: "c # cs = ps @ pat @ ss" by blast
    show "str_includes (c # cs) pat"
    proof (cases ps)
      case Nil
      with eq have "prefix pat (c # cs)" by (simp add: prefix_def)
      then show ?thesis by simp
    next
      case (Cons p ps')
      with eq have "cs = ps' @ pat @ ss" by simp
      with Cons.IH have "str_includes cs pat" by blast
      then show ?thesis by simp
    qed
  qed
qed

text \<open>
  Claim C6. The classifier answers true exactly for an instance of Error whose message
  contains the substring "429" or the substring "Too Many Requests" (compared character
  by character, so case-sensitively); it answers false for undefined, null, primitives
  and objects that are not Errors, whatever message they carry. The message
  "HTTP 429: Too Many Requests" classifies as rate-limited, "HTTP 403: Forbidden" does
  not.
\<close>

theorem is429_classifies:
  "(is429 v \<longleftrightarrow>
      (\<exists>msg h. v = JsError msg h \<and>
         ((\<exists>ps ss. msg = ps @ ''429'' @ ss) \<or>
          (\<exists>ps ss. msg = ps @ ''Too Many Requests'' @ ss))))
   \<and> \<not> is429 JsUndefined \<and> \<not> is429 JsNull \<and> \<not> is429 (JsPrimitive p)
   \<and> \<not> is429 (JsObject m h')
   \<and> is429 (JsError ''HTTP 429: Too Many Requests'' h')
   \<and> \<not> is429 (JsError ''HTTP 403: Forbidden'' h')
   \<and> \<not> is429 (JsError ''too many requests'' h')"
proof -
  have "is429 v \<longleftrightarrow>
      (\<exists>msg h. v = JsError msg h \<and>
         ((\<exists>ps ss. msg = ps @ ''429'' @ ss) \<or>
          (\<exists>ps ss. msg = ps @ ''Too Many Requests'' @ ss)))"
    by (cases v) (simp_all add: str_includes_iff)
  moreover have "is429 (JsError ''HTTP 429: Too Many Requests'' h')" by simp
  moreover have "\<not> is429 (JsError ''HTTP 403: Forbidden'' h')" by simp
  moreover have "\<not> is429 (JsError ''too many requests'' h')" by simp
  ultimately show ?thesis by simp
qed

section \<open>Properties of the retry loop\<close>


lemma pre_check_invoked: "invoked (pre_check clock label w) = invoked w"
  by (simp add: pre_check_def date_now_def sleep_def log_def Let_def split: option.splits)

lemma pre_check_limits: "limits (pre_check clock label w) = limits w"
  by (simp add: pre_check_def date_now_def sleep_def log_def Let_def split: option.splits)

lemma extract_frame:
  "limits (snd (extractResetSeconds clock err w)) = limits w"
  "invoked (snd (extractResetSeconds clock err w)) = invoked w"
  "effects (snd (extractResetSeconds clock err w)) = effects w"
  by (simp_all add: extractResetSeconds_def date_now_def Let_def
        split: js_headers.splits option.splits)

lemma getWaitMs_frame:
  "limits (snd (getWaitMs cfg clock err attempt w)) = limits w"
  "invoked (snd (getWaitMs cfg clock err attempt w)) = invoked w"
  "effects (snd (getWaitMs cfg clock err attempt w)) = effects w"
  by (simp_all add: getWaitMs_def extract_frame split_beta Let_def
        split: option.splits js_num.splits)

lemma body_success:
  assumes "fn (invoked w) = Inr r"
  shows "attempt_body cfg clock fn label attempt w =
    Return (Inr r)
      (w\<lparr>invoked := Suc (invoked w), reads := Suc (reads w),
         limits := (limits w)(label \<mapsto>
           \<lparr>endpoint = label, remaining = 1, resetAt = 0, lastHit = clock (reads w)\<rparr>)\<rparr>)"
  using assms by (simp add: attempt_body_def date_now_def Let_def)

lemma body_other:
  assumes "fn (invoked w) = Inl e" and "\<not> is429 e"
  shows "attempt_body cfg clock fn label attempt w =
    Return (Inl e) (w\<lparr>invoked := Suc (invoked w)\<rparr>)"
  using assms by (simp add: attempt_body_def Let_def)

lemma body_429:
  assumes "fn (invoked w) = Inl e" and "is429 e"
  shows "\<exists>w'. attempt_body cfg clock fn label attempt w = Continue e w'
      \<and> invoked w' = Suc (invoked w)
      \<and> limits w' = (limits w)(label \<mapsto>
           \<lparr>endpoint = label, remaining = 0,
            resetAt = clock (reads (snd (getWaitMs cfg clock e attempt (w\<lparr>invoked := Suc (invoked w)\<rparr>))))
                    + fst (getWaitMs cfg clock e attempt (w\<lparr>invoked := Suc (invoked w)\<rparr>)),
            lastHit = clock (Suc (reads (snd (getWaitMs cfg clock e attempt (w\<lparr>invoked := Suc (invoked w)\<rparr>)))))\<rparr>)
      \<and> reads w' = Suc (Suc (reads (snd (getWaitMs cfg clock e attempt (w\<lparr>invoked := Suc (invoked w)\<rparr>)))))"
  using assms
  by (simp add: attempt_body_def date_now_def sleep_def log_def Let_def split_beta getWaitMs_frame)

lemma body_invoked:
  "attempt_body cfg clock fn label attempt w = Return r w' \<Longrightarrow> invoked w' = Suc (invoked w)"
  "attempt_body cfg clock fn label attempt w = Continue e w' \<Longrightarrow> invoked w' = Suc (invoked w)"
  by (auto simp add: attempt_body_def date_now_def sleep_def log_def Let_def split_beta getWaitMs_frame
      split: sum.splits if_splits)

lemma attempts_invoked_mono:
  "invoked w \<le> invoked (snd (attempts cfg clock fn label attempt le w))"
proof (induction cfg clock fn label attempt le w rule: attempts.induct)
  case (1 cfg clock fn label attempt lastError w)
  show ?case
  proof (cases "int attempt \<le> maxRetries cfg")
    case False
    then show ?thesis by (simp add: attempts.simps [of _ _ _ _ attempt])
  next
    case True
    show ?thesis
    proof (cases "attempt_body cfg clock fn label attempt w")
      case (Return r w')
      with True body_invoked(1) [OF Return] show ?thesis
        by (simp add: attempts.simps [of _ _ _ _ attempt])
    next
      case (Continue e w')
      from "1.IH" [OF True Continue] body_invoked(2) [OF Continue] True Continue
      show ?thesis by (simp add: attempts.simps [of _ _ _ _ attempt])
    qed
  qed
qed

lemma attempts_invoked_lower:
  assumes "int attempt \<le> maxRetries cfg"
  shows "invoked w < invoked (snd (attempts cfg clock fn label attempt le w))"
proof (cases "attempt_body cfg clock fn label attempt w")
  case (Return r w')
  with assms body_invoked(1) [OF Return] show ?thesis
    by (simp add: attempts.simps [of _ _ _ _ attempt])
next
  case (Continue e w')
  from attempts_invoked_mono [of w' cfg clock fn label "Suc attempt" e]
    body_invoked(2) [OF Continue] assms Continue
  show ?thesis by (simp add: attempts.simps [of _ _ _ _ attempt])
qed

lemma attempts_invoked_upper:
  "int (invoked (snd (attempts cfg clock fn label attempt le w)))
     \<le> int (invoked w) + max 0 (maxRetries cfg + 1 - int attempt)"
proof (induction cfg clock fn label attempt le w rule: attempts.induct)
  case (1 cfg clock fn label attempt lastError w)
  show ?case
  proof (cases "int attempt \<le> maxRetries cfg")
    case False
    then show ?thesis by (simp add: attempts.simps [of _ _ _ _ attempt])
  next
    case True
    show ?thesis
    proof (cases "attempt_body cfg clock fn label attempt w")
      case (Return r w')
      with True body_invoked(1) [OF Return] show ?thesis
        by (simp add: attempts.simps [of _ _ _ _ attempt])
    next
      case (Continue e w')
      from "1.IH" [OF True Continue] body_invoked(2) [OF Continue] True Continue
      show ?thesis by (simp add: attempts.simps [of _ _ _ _ attempt])
    qed
  qed
qed

lemma attempts_all_429:
  assumes "int attempt \<le> maxRetries cfg"
    and "\<forall>k. int attempt + int k \<le> maxRetries cfg \<longrightarrow> (\<exists>e. fn (invoked w + k) = Inl e \<and> is429 e)"
  shows "fst (attempts cfg clock fn label attempt le w) = fn (invoked w + nat (maxRetries cfg - int attempt))
       \<and> invoked (snd (attempts cfg clock fn label attempt le w)) = invoked w + nat (maxRetries cfg - int attempt) + 1"
  using assms
proof (induction cfg clock fn label attempt le w rule: attempts.induct)
  case (1 cfg clock fn label attempt lastError w)
  from "1.prems"(2) [rule_format, of 0] "1.prems"(1)
  obtain e where e: "fn (invoked w) = Inl e" "is429 e" by auto
  from body_429 [where fn = fn and w = w and cfg = cfg and clock = clock and label = label and attempt = attempt, OF e]
  obtain w' where w': "attempt_body cfg clock fn label attempt w = Continue e w'"
    "invoked w' = Suc (invoked w)" by blast
  show ?case
  proof (cases "int (Suc attempt) \<le> maxRetries cfg")
    case True
    have "\<forall>k. int (Suc attempt) + int k \<le> maxRetries cfg \<longrightarrow> (\<exists>e. fn (invoked w' + k) = Inl e \<and> is429 e)"
    proof (intro allI impI)
      fix k assume "int (Suc attempt) + int k \<le> maxRetries cfg"
      then have "int attempt + int (Suc k) \<le> maxRetries cfg" by simp
      from "1.prems"(2) [rule_format, OF this] show "\<exists>e. fn (invoked w' + k) = Inl e \<and> is429 e"
        by (simp add: w'(2))
    qed
    from "1.IH" [OF "1.prems"(1) w'(1) True this]
    have "fst (attempts cfg clock fn label (Suc attempt) e w') = fn (invoked w' + nat (maxRetries cfg - int (Suc attempt)))"
      and "invoked (snd (attempts cfg clock fn label (Suc attempt) e w')) = invoked w' + nat (maxRetries cfg - int (Suc attempt)) + 1"
      by simp_all
    moreover have "invoked w' + nat (maxRetries cfg - int (Suc attempt)) = invoked w + nat (maxRetries cfg - int attempt)"
      using True w'(2) by simp
    ultimately show ?thesis
      using "1.prems"(1) w'(1) by (simp add: attempts.simps [of _ _ _ _ attempt])
  next
    case False
    with "1.prems"(1) have eq: "maxRetries cfg = int attempt" by simp
    from False have "attempts cfg clock fn label (Suc attempt) e w' = (Inl e, w')"
      by (simp add: attempts.simps [of _ _ _ _ "Suc attempt"])
    then show ?thesis
      using "1.prems"(1) w' e eq by (simp add: attempts.simps [of _ _ _ _ attempt])
  qed
qed


lemma body_Return_Inr:
  assumes "attempt_body cfg clock fn label attempt w = Return (Inr r) w'"
  shows "fn (invoked w) = Inr r"
    and "w' = w\<lparr>invoked := Suc (invoked w), reads := Suc (reads w),
         limits := (limits w)(label \<mapsto>
           \<lparr>endpoint = label, remaining = 1, resetAt = 0, lastHit = clock (reads w)\<rparr>)\<rparr>"
  using assms
  by (auto simp add: attempt_body_def date_now_def Let_def split_beta
      split: sum.splits if_splits)

lemma attempts_returns:
  assumes "fst (attempts cfg clock fn label attempt le w) = Inr r"
  shows "invoked w < invoked (snd (attempts cfg clock fn label attempt le w))
     \<and> fn (invoked (snd (attempts cfg clock fn label attempt le w)) - 1) = Inr r
     \<and> 0 < reads (snd (attempts cfg clock fn label attempt le w))
     \<and> limits (snd (attempts cfg clock fn label attempt le w)) label =
         Some \<lparr>endpoint = label, remaining = 1, resetAt = 0,
               lastHit = clock (reads (snd (attempts cfg clock fn label attempt le w)) - 1)\<rparr>"
  using assms
proof (induction cfg clock fn label attempt le w rule: attempts.induct)
  case (1 cfg clock fn label attempt lastError w)
  show ?case
  proof (cases "int attempt \<le> maxRetries cfg")
    case False
    with "1.prems" show ?thesis by (simp add: attempts.simps [of _ _ _ _ attempt])
  next
    case True
    show ?thesis
    proof (cases "attempt_body cfg clock fn label attempt w")
      case (Return r' w')
      with True "1.prems" have r': "r' = Inr r"
        by (simp add: attempts.simps [of _ _ _ _ attempt])
      from body_Return_Inr [OF Return [unfolded r']] True Return r'
      show ?thesis by (simp add: attempts.simps [of _ _ _ _ attempt])
    next
      case (Continue e w')
      from True Continue "1.prems"
      have "fst (attempts cfg clock fn label (Suc attempt) e w') = Inr r"
        by (simp add: attempts.simps [of _ _ _ _ attempt])
      from "1.IH" [OF True Continue this] body_invoked(2) [OF Continue] True Continue
      show ?thesis by (simp add: attempts.simps [of _ _ _ _ attempt])
    qed
  qed
qed

text \<open>
  Claim C1. With a non-negative integer \<open>maxRetries\<close>, a call invokes the thunk at least
  once and at most \<open>maxRetries + 1\<close> times. When every invocation fails with a rate-limit
  error the thunk is invoked exactly \<open>maxRetries + 1\<close> times and the call throws what the
  last invocation threw; with \<open>maxRetries = 2\<close> that is 3 invocations and the error of the
  third.
\<close>

theorem call_invocation_bounds:
  assumes "0 \<le> maxRetries cfg"
  shows "invoked w + 1 \<le> invoked (snd (call cfg clock fn label w))
       \<and> int (invoked (snd (call cfg clock fn label w))) \<le> int (invoked w) + maxRetries cfg + 1
       \<and> ((\<forall>k. int k \<le> maxRetries cfg \<longrightarrow> (\<exists>e. fn (invoked w + k) = Inl e \<and> is429 e)) \<longrightarrow>
             invoked (snd (call cfg clock fn label w)) = invoked w + nat (maxRetries cfg) + 1
           \<and> fst (call cfg clock fn label w) = fn (invoked w + nat (maxRetries cfg)))
       \<and> (maxRetries cfg = 2 \<longrightarrow> (\<forall>k<3. \<exists>e. fn (invoked w + k) = Inl e \<and> is429 e) \<longrightarrow>
             invoked (snd (call cfg clock fn label w)) = invoked w + 3
           \<and> fst (call cfg clock fn label w) = fn (invoked w + 2))"
proof -
  let ?p = "pre_check clock label w"
  have p: "invoked ?p = invoked w" by (rule pre_check_invoked)
  have lower: "invoked w + 1 \<le> invoked (snd (call cfg clock fn label w))"
    using attempts_invoked_lower [of 0 cfg ?p clock fn label JsUndefined] assms p
    by (simp add: call_def)
  have upper: "int (invoked (snd (call cfg clock fn label w))) \<le> int (invoked w) + maxRetries cfg + 1"
    using attempts_invoked_upper [of cfg clock fn label 0 JsUndefined ?p] assms p
    by (simp add: call_def)
  have all: "invoked (snd (call cfg clock fn label w)) = invoked w + nat (maxRetries cfg) + 1
           \<and> fst (call cfg clock fn label w) = fn (invoked w + nat (maxRetries cfg))"
    if "\<forall>k. int k \<le> maxRetries cfg \<longrightarrow> (\<exists>e. fn (invoked w + k) = Inl e \<and> is429 e)"
    using attempts_all_429 [of 0 cfg fn ?p clock label JsUndefined] assms p that
    by (simp add: call_def)
  have two: "invoked (snd (call cfg clock fn label w)) = invoked w + 3
           \<and> fst (call cfg clock fn label w) = fn (invoked w + 2)"
    if m: "maxRetries cfg = 2" and f: "\<forall>k<3. \<exists>e. fn (invoked w + k) = Inl e \<and> is429 e"
  proof -
    have "\<forall>k. int k \<le> maxRetries cfg \<longrightarrow> (\<exists>e. fn (invoked w + k) = Inl e \<and> is429 e)"
      using m f by auto
    from all [OF this] m show ?thesis by simp
  qed
  from lower upper all two show ?thesis by blast
qed

theorem call_invocation_bounds_witness:
  "0 \<le> maxRetries \<lparr>maxRetries = 2, baseDelay = 100\<rparr>
   \<and> invoked (snd (call \<lparr>maxRetries = 2, baseDelay = 100\<rparr> (\<lambda>n. 1000 + real n)
        (\<lambda>k. Inl (JsError (if k = 2 then ''HTTP 429 (third)'' else ''HTTP 429'') NoHeaders)
               :: js_value + unit)
        ''search'' initial)) = 3
   \<and> fst (call \<lparr>maxRetries = 2, baseDelay = 100\<rparr> (\<lambda>n. 1000 + real n)
        (\<lambda>k. Inl (JsError (if k = 2 then ''HTTP 429 (third)'' else ''HTTP 429'') NoHeaders)
               :: js_value + unit)
        ''search'' initial) = Inl (JsError ''HTTP 429 (third)'' NoHeaders)"
  using call_invocation_bounds [where cfg = "\<lparr>maxRetries = 2, baseDelay = 100\<rparr>"
      and w = initial and clock = "\<lambda>n. 1000 + real n" and label = "''search''"
      and fn = "\<lambda>k. Inl (JsError (if k = 2 then ''HTTP 429 (third)'' else ''HTTP 429'') NoHeaders)
               :: js_value + unit"]
  by (simp add: initial_def)

text \<open>
  Claim C2. When an invocation of the thunk fails with a value that is not classified as
  a rate-limit error, the loop stops there: the call throws that very value, the thunk is
  not invoked again, and nothing else happens (no write to the state store, no clock
  reading, no sleep, no log line). So the entry of the label, and every other entry, is
  what it was before the attempt; a label without an entry still has none.
\<close>

theorem non_rate_limit_failure_propagates:
  assumes "fn (invoked w) = Inl err" and "\<not> is429 err"
  shows "(int attempt \<le> maxRetries cfg \<longrightarrow>
            attempts cfg clock fn label attempt lastError w =
              (Inl err, w\<lparr>invoked := Suc (invoked w)\<rparr>))
       \<and> (0 \<le> maxRetries cfg \<longrightarrow>
            fst (call cfg clock fn label w) = Inl err
          \<and> invoked (snd (call cfg clock fn label w)) = Suc (invoked w)
          \<and> limits (snd (call cfg clock fn label w)) = limits w
          \<and> getState label (snd (call cfg clock fn label w)) = getState label w)"
proof -
  have loop: "attempts cfg clock fn label attempt lastError w' =
      (Inl err, w'\<lparr>invoked := Suc (invoked w')\<rparr>)"
    if "int attempt \<le> maxRetries cfg" and "invoked w' = invoked w" for attempt lastError w'
    using that assms body_other [of fn w' err cfg clock label attempt]
    by (simp add: attempts.simps [of _ _ _ _ attempt])
  have "call cfg clock fn label w =
      (Inl err, (pre_check clock label w)\<lparr>invoked := Suc (invoked w)\<rparr>)"
    if "0 \<le> maxRetries cfg"
    using loop [of 0 "pre_check clock label w" JsUndefined] that
    by (simp add: call_def pre_check_invoked)
  then show ?thesis
    using loop [of attempt w lastError]
    by (simp add: getState_def pre_check_limits)
qed

theorem non_rate_limit_failure_propagates_witness:
  "\<not> is429 (JsError ''HTTP 403: Forbidden'' NoHeaders)
   \<and> fst (call \<lparr>maxRetries = 2, baseDelay = 100\<rparr> (\<lambda>n. 1000 + real n)
        (\<lambda>k. Inl (JsError ''HTTP 403: Forbidden'' NoHeaders) :: js_value + unit)
        ''test'' initial) = Inl (JsError ''HTTP 403: Forbidden'' NoHeaders)
   \<and> invoked (snd (call \<lparr>maxRetries = 2, baseDelay = 100\<rparr> (\<lambda>n. 1000 + real n)
        (\<lambda>k. Inl (JsError ''HTTP 403: Forbidden'' NoHeaders) :: js_value + unit)
        ''test'' initial)) = 1
   \<and> getState ''test'' (snd (call \<lparr>maxRetries = 2, baseDelay = 100\<rparr> (\<lambda>n. 1000 + real n)
        (\<lambda>k. Inl (JsError ''HTTP 403: Forbidden'' NoHeaders) :: js_value + unit)
        ''test'' initial)) = None"
  using non_rate_limit_failure_propagates [where cfg = "\<lparr>maxRetries = 2, baseDelay = 100\<rparr>"
      and w = initial and clock = "\<lambda>n. 1000 + real n" and label = "''test''"
      and err = "JsError ''HTTP 403: Forbidden'' NoHeaders"
      and fn = "\<lambda>k. Inl (JsError ''HTTP 403: Forbidden'' NoHeaders) :: js_value + unit"]
  by (simp add: initial_def getState_def)

text \<open>
  Claim C3. When an invocation of the thunk succeeds, the loop returns its result at
  once, and the entry of the label becomes: endpoint the label, remaining 1, resetAt 0,
  lastHit the clock reading taken at that moment, whatever was stored before (an
  exhausted entry included). For a whole call: if it returns a result, that result is the
  one of the last invocation made, and the entry of the label is the healthy one, with
  lastHit the last clock reading of the call.
\<close>

theorem success_records_healthy_state:
  "(fn (invoked w) = Inr result \<and> int attempt \<le> maxRetries cfg \<longrightarrow>
      attempts cfg clock fn label attempt lastError w =
        (Inr result,
         w\<lparr>invoked := Suc (invoked w), reads := Suc (reads w),
           limits := (limits w)(label \<mapsto>
             \<lparr>endpoint = label, remaining = 1, resetAt = 0, lastHit = clock (reads w)\<rparr>)\<rparr>))
   \<and> (fst (call cfg clock fn label w) = Inr result \<longrightarrow>
        fn (invoked (snd (call cfg clock fn label w)) - 1) = Inr result
      \<and> invoked w < invoked (snd (call cfg clock fn label w))
      \<and> getState label (snd (call cfg clock fn label w)) =
          Some \<lparr>endpoint = label, remaining = 1, resetAt = 0,
                lastHit = clock (reads (snd (call cfg clock fn label w)) - 1)\<rparr>)"
proof -
  have loop: "attempts cfg clock fn label attempt lastError w =
        (Inr result,
         w\<lparr>invoked := Suc (invoked w), reads := Suc (reads w),
           limits := (limits w)(label \<mapsto>
             \<lparr>endpoint = label, remaining = 1, resetAt = 0, lastHit = clock (reads w)\<rparr>)\<rparr>)"
    if "fn (invoked w) = Inr result" and "int attempt \<le> maxRetries cfg"
    using that body_success [of fn w result cfg clock label attempt]
    by (simp add: attempts.simps [of _ _ _ _ attempt])
  have whole: "fn (invoked (snd (call cfg clock fn label w)) - 1) = Inr result
      \<and> invoked w < invoked (snd (call cfg clock fn label w))
      \<and> getState label (snd (call cfg clock fn label w)) =
          Some \<lparr>endpoint = label, remaining = 1, resetAt = 0,
                lastHit = clock (reads (snd (call cfg clock fn label w)) - 1)\<rparr>"
    if "fst (call cfg clock fn label w) = Inr result"
    using attempts_returns [of cfg clock fn label 0 JsUndefined "pre_check clock label w" result] that
    by (simp add: call_def getState_def pre_check_invoked)
  from loop whole show ?thesis by blast
qed


theorem success_records_healthy_state_witness:
  "fst (call \<lparr>maxRetries = 2, baseDelay = 100\<rparr> (\<lambda>n. 1000 + real n)
        (\<lambda>k. Inr ''hello'' :: js_value + string) ''test''
        (initial\<lparr>limits := [''test'' \<mapsto>
           \<lparr>endpoint = ''test'', remaining = 0, resetAt = 5000, lastHit = 900\<rparr>]\<rparr>))
     = Inr ''hello''
   \<and> getState ''test'' (snd (call \<lparr>maxRetries = 2, baseDelay = 100\<rparr> (\<lambda>n. 1000 + real n)
        (\<lambda>k. Inr ''hello'' :: js_value + string) ''test''
        (initial\<lparr>limits := [''test'' \<mapsto>
           \<lparr>endpoint = ''test'', remaining = 0, resetAt = 5000, lastHit = 900\<rparr>]\<rparr>)))
     = Some \<lparr>endpoint = ''test'', remaining = 1, resetAt = 0, lastHit = 1002\<rparr>"
proof -
  let ?c = "call \<lparr>maxRetries = 2, baseDelay = 100\<rparr> (\<lambda>n. 1000 + real n)
        (\<lambda>k. Inr ''hello'' :: js_value + string) ''test''
        (initial\<lparr>limits := [''test'' \<mapsto>
           \<lparr>endpoint = ''test'', remaining = 0, resetAt = 5000, lastHit = 900\<rparr>]\<rparr>)"
  have a: "fst ?c = Inr ''hello''" by code_simp
  have b: "reads (snd ?c) = 3" by code_simp
  from success_records_healthy_state [where cfg = "\<lparr>maxRetries = 2, baseDelay = 100\<rparr>"
      and clock = "\<lambda>n. 1000 + real n" and label = "''test''" and result = "''hello''"
      and fn = "\<lambda>k. Inr ''hello'' :: js_value + string"
      and w = "initial\<lparr>limits := [''test'' \<mapsto>
           \<lparr>endpoint = ''test'', remaining = 0, resetAt = 5000, lastHit = 900\<rparr>]\<rparr>"] a b
  show ?thesis by simp
qed

section \<open>What the state store holds\<close>


lemma extract_reads: "reads w \<le> reads (snd (extractResetSeconds clock err w))"
  by (simp add: extractResetSeconds_def date_now_def Let_def
        split: js_headers.splits option.splits)

lemma getWaitMs_reads: "reads w \<le> reads (snd (getWaitMs cfg clock err attempt w))"
  using extract_reads [of w clock err]
  by (simp add: getWaitMs_def split_beta Let_def split: option.splits js_num.splits)

lemma getWaitMs_pos:
  assumes "0 < baseDelay cfg"
  shows "0 < fst (getWaitMs cfg clock err attempt w)"
  using assms
  by (simp add: getWaitMs_def split_beta Let_def split: option.splits js_num.splits)

lemma getWaitMs_invoked:
  "getWaitMs cfg clock e a (w\<lparr>invoked := n\<rparr>) =
     (fst (getWaitMs cfg clock e a w), (snd (getWaitMs cfg clock e a w))\<lparr>invoked := n\<rparr>)"
  by (simp add: getWaitMs_def extractResetSeconds_def date_now_def Let_def split_beta
      split: js_headers.splits option.splits js_num.splits)

lemma pre_check_reads: "reads w \<le> reads (pre_check clock label w)"
  by (simp add: pre_check_def date_now_def sleep_def log_def Let_def split: option.splits)

lemma exhausted_entry_later:
  assumes "0 < baseDelay cfg"
  shows "clock (reads (snd (getWaitMs cfg clock err attempt w)))
           < resetAt (exhausted_entry cfg clock label err attempt w)"
  using getWaitMs_pos [OF assms, of clock err attempt w] by (simp add: exhausted_entry_def)

lemma body_429_exact:
  assumes "fn (invoked w) = Inl e" and "is429 e"
  shows "\<exists>w'. attempt_body cfg clock fn label attempt w = Continue e w'
      \<and> invoked w' = Suc (invoked w)
      \<and> limits w' = (limits w)(label \<mapsto> exhausted_entry cfg clock label e attempt w)
      \<and> reads w' = Suc (Suc (reads (snd (getWaitMs cfg clock e attempt w))))"
  using body_429 [of fn w e cfg clock label attempt, OF assms]
  by (simp add: getWaitMs_invoked exhausted_entry_def)

lemma entry_ok_mono:
  assumes "entry_ok cfg clock r label st" and "r \<le> r'"
  shows "entry_ok cfg clock r' label st"
proof -
  from assms(1) consider
      (healthy) i where "i < r"
        "st = \<lparr>endpoint = label, remaining = 1, resetAt = 0, lastHit = clock i\<rparr>"
    | (exhausted) err attempt w0 where "is429 err" "int attempt \<le> maxRetries cfg"
        "2 * attempt \<le> reads w0"
        "Suc (reads (snd (getWaitMs cfg clock err attempt w0))) < r"
        "st = exhausted_entry cfg clock label err attempt w0"
        "clock (reads (snd (getWaitMs cfg clock err attempt w0))) < resetAt st"
    unfolding entry_ok_def by blast
  then show ?thesis
  proof cases
    case healthy
    from healthy(1) assms(2) have "i < r'" by simp
    with healthy(2) show ?thesis unfolding entry_ok_def by blast
  next
    case exhausted
    from exhausted(4) assms(2)
    have "Suc (reads (snd (getWaitMs cfg clock err attempt w0))) < r'" by simp
    with exhausted(1,2,3,5,6) show ?thesis unfolding entry_ok_def by blast
  qed
qed

lemma store_ok_frame:
  assumes "store_ok cfg clock w" and "limits w' = limits w" and "reads w \<le> reads w'"
  shows "store_ok cfg clock w'"
  using assms entry_ok_mono unfolding store_ok_def by metis

lemma store_ok_update:
  assumes "store_ok cfg clock w" and "reads w \<le> reads w'"
    and "limits w' = (limits w)(label \<mapsto> st)" and "entry_ok cfg clock (reads w') label st"
  shows "store_ok cfg clock w'"
  unfolding store_ok_def
proof (intro allI impI)
  fix l s assume ls: "limits w' l = Some s"
  show "entry_ok cfg clock (reads w') l s"
  proof (cases "l = label")
    case True
    with ls assms(3,4) show ?thesis by simp
  next
    case False
    with ls assms(3) have "limits w l = Some s" by simp
    with assms(1) have "entry_ok cfg clock (reads w) l s" unfolding store_ok_def by blast
    from entry_ok_mono [OF this assms(2)] show ?thesis .
  qed
qed

lemma body_store_ok:
  assumes pos: "0 < baseDelay cfg" and ok: "store_ok cfg clock w"
    and budget: "int attempt \<le> maxRetries cfg" and taken: "2 * attempt \<le> reads w"
  shows "case attempt_body cfg clock fn label attempt w of
           Return r w' \<Rightarrow> store_ok cfg clock w' \<and> reads w \<le> reads w'
         | Continue e w' \<Rightarrow> store_ok cfg clock w' \<and> reads w + 2 \<le> reads w'"
proof (cases "fn (invoked w)")
  case (Inr result)
  let ?st = "\<lparr>endpoint = label, remaining = 1, resetAt = 0, lastHit = clock (reads w)\<rparr>"
  let ?w' = "w\<lparr>invoked := Suc (invoked w), reads := Suc (reads w),
         limits := (limits w)(label \<mapsto> ?st)\<rparr>"
  have "entry_ok cfg clock (reads ?w') label ?st"
    unfolding entry_ok_def by auto
  then have "store_ok cfg clock ?w'"
    using store_ok_update [OF ok, of ?w' label ?st] by simp
  with body_success [of fn w result cfg clock label attempt, OF Inr] show ?thesis by simp
next
  case (Inl e)
  show ?thesis
  proof (cases "is429 e")
    case False
    have "store_ok cfg clock (w\<lparr>invoked := Suc (invoked w)\<rparr>)"
      using store_ok_frame [OF ok, of "w\<lparr>invoked := Suc (invoked w)\<rparr>"] by simp
    with body_other [of fn w e cfg clock label attempt, OF Inl False] show ?thesis by simp
  next
    case True
    let ?st = "exhausted_entry cfg clock label e attempt w"
    from body_429_exact [of fn w e cfg clock label attempt, OF Inl True]
    obtain w' where w': "attempt_body cfg clock fn label attempt w = Continue e w'"
      "limits w' = (limits w)(label \<mapsto> ?st)"
      "reads w' = Suc (Suc (reads (snd (getWaitMs cfg clock e attempt w))))"
      by blast
    have r: "reads w \<le> reads (snd (getWaitMs cfg clock e attempt w))"
      by (rule getWaitMs_reads)
    have "entry_ok cfg clock (reads w') label ?st"
      unfolding entry_ok_def
      using True budget taken w'(3) exhausted_entry_later [OF pos, of clock e attempt w label]
      by (intro disjI2 exI [of _ e] exI [of _ attempt] exI [of _ w]) simp
    then have "store_ok cfg clock w'"
      using store_ok_update [OF ok, of w' label ?st] r w'(2,3) by simp
    with w'(1,3) r show ?thesis by simp
  qed
qed

lemma attempts_store_ok:
  assumes "0 < baseDelay cfg" and "store_ok cfg clock w" and "2 * attempt \<le> reads w"
  shows "store_ok cfg clock (snd (attempts cfg clock fn label attempt le w))"
  using assms
proof (induction cfg clock fn label attempt le w rule: attempts.induct)
  case (1 cfg clock fn label attempt lastError w)
  show ?case
  proof (cases "int attempt \<le> maxRetries cfg")
    case False
    with "1.prems" show ?thesis by (simp add: attempts.simps [of _ _ _ _ attempt])
  next
    case True
    note body = body_store_ok [OF "1.prems"(1,2) True "1.prems"(3), of fn label]
    show ?thesis
    proof (cases "attempt_body cfg clock fn label attempt w")
      case (Return r w')
      with body True show ?thesis
        by (simp add: attempts.simps [of _ _ _ _ attempt])
    next
      case (Continue e w')
      with body have "store_ok cfg clock w'" and "reads w + 2 \<le> reads w'" by simp_all
      with "1.prems"(3) have "store_ok cfg clock w'" and "2 * Suc attempt \<le> reads w'"
        by simp_all
      from "1.IH" [OF True Continue "1.prems"(1) this] True Continue show ?thesis
        by (simp add: attempts.simps [of _ _ _ _ attempt])
    qed
  qed
qed

lemma pre_check_store_ok:
  assumes "store_ok cfg clock w"
  shows "store_ok cfg clock (pre_check clock label w)"
  using store_ok_frame [OF assms pre_check_limits pre_check_reads] .

lemma attempts_throws_429:
  assumes "fst (attempts cfg clock fn label attempt le w) = Inl e" and "is429 e"
    and "int attempt \<le> maxRetries cfg"
  shows "\<exists>w0. fn (invoked (snd (attempts cfg clock fn label attempt le w)) - 1) = Inl e
      \<and> limits (snd (attempts cfg clock fn label attempt le w)) label
          = Some (exhausted_entry cfg clock label e (nat (maxRetries cfg)) w0)
      \<and> reads (snd (attempts cfg clock fn label attempt le w))
          = Suc (Suc (reads (snd (getWaitMs cfg clock e (nat (maxRetries cfg)) w0))))"
  using assms
proof (induction cfg clock fn label attempt le w rule: attempts.induct)
  case (1 cfg clock fn label attempt lastError w)
  note budget = "1.prems"(3)
  show ?case
  proof (cases "fn (invoked w)")
    case (Inr result)
    from body_success [of fn w result cfg clock label attempt, OF Inr] budget "1.prems"(1)
    show ?thesis by (simp add: attempts.simps [of _ _ _ _ attempt])
  next
    case (Inl e1)
    show ?thesis
    proof (cases "is429 e1")
      case False
      from body_other [of fn w e1 cfg clock label attempt, OF Inl False] budget "1.prems"(1)
      have "e = e1" by (simp add: attempts.simps [of _ _ _ _ attempt])
      with False "1.prems"(2) show ?thesis by simp
    next
      case True
      from body_429_exact [of fn w e1 cfg clock label attempt, OF Inl True]
      obtain w1 where w1: "attempt_body cfg clock fn label attempt w = Continue e1 w1"
        "invoked w1 = Suc (invoked w)"
        "limits w1 = (limits w)(label \<mapsto> exhausted_entry cfg clock label e1 attempt w)"
        "reads w1 = Suc (Suc (reads (snd (getWaitMs cfg clock e1 attempt w))))"
        by blast
      have unfold: "attempts cfg clock fn label attempt lastError w
          = attempts cfg clock fn label (Suc attempt) e1 w1"
        using budget w1(1) by (simp add: attempts.simps [of _ _ _ _ attempt])
      show ?thesis
      proof (cases "int (Suc attempt) \<le> maxRetries cfg")
        case True
        from "1.prems"(1) unfold
        have "fst (attempts cfg clock fn label (Suc attempt) e1 w1) = Inl e" by simp
        from "1.IH" [OF budget w1(1) this "1.prems"(2) True] show ?thesis
          unfolding unfold .
      next
        case False
        then have last: "attempts cfg clock fn label (Suc attempt) e1 w1 = (Inl e1, w1)"
          by (simp add: attempts.simps [of _ _ _ _ "Suc attempt"])
        from False budget have a: "nat (maxRetries cfg) = attempt" by simp
        from "1.prems"(1) unfold last have e: "e1 = e" by simp
        have "fn (invoked w1 - 1) = Inl e
          \<and> limits w1 label = Some (exhausted_entry cfg clock label e (nat (maxRetries cfg)) w)
          \<and> reads w1 = Suc (Suc (reads (snd (getWaitMs cfg clock e (nat (maxRetries cfg)) w))))"
          using w1(2,3,4) Inl e a by simp
        then show ?thesis unfolding unfold last by auto
      qed
    qed
  qed
qed


text \<open>
  Claim C5. The rate limiter writes an entry in two places only. After a rate-limit
  failure it stores, under the label, remaining 0, resetAt the clock reading taken at
  that failure plus the wait computed for that failure (for the error just thrown, at the
  current attempt), and lastHit the next reading; with a positive baseDelay this resetAt
  lies strictly after the reading. After a success it stores remaining 1 and resetAt 0.
  A failure of another kind and the pre-check store nothing. A call that gives up on the
  rate-limit error \<open>e\<close> leaves the entry computed for \<open>e\<close> at the last attempt. So, from
  the empty store on and after every call, every entry has remaining 0 or 1, with
  resetAt 0 when remaining is 1 and with the resetAt of a rate-limit failure when
  remaining is 0.
\<close>

theorem store_invariant:
  assumes "0 < baseDelay cfg"
  shows "(\<forall>w (fn :: nat \<Rightarrow> js_value + 'a) label attempt e.
            fn (invoked w) = Inl e \<and> is429 e \<longrightarrow>
            (\<exists>w'. attempt_body cfg clock fn label attempt w = Continue e w'
               \<and> limits w' = (limits w)(label \<mapsto>
                   \<lparr>endpoint = label, remaining = 0,
                    resetAt = clock (reads (snd (getWaitMs cfg clock e attempt w)))
                              + fst (getWaitMs cfg clock e attempt w),
                    lastHit = clock (Suc (reads (snd (getWaitMs cfg clock e attempt w))))\<rparr>)
               \<and> clock (reads (snd (getWaitMs cfg clock e attempt w)))
                   < clock (reads (snd (getWaitMs cfg clock e attempt w)))
                     + fst (getWaitMs cfg clock e attempt w)))
    \<and> (\<forall>w (fn :: nat \<Rightarrow> js_value + 'a) label attempt r.
            fn (invoked w) = Inr r \<longrightarrow>
            (\<exists>w'. attempt_body cfg clock fn label attempt w = Return (Inr r) w'
               \<and> limits w' = (limits w)(label \<mapsto>
                   \<lparr>endpoint = label, remaining = 1, resetAt = 0,
                    lastHit = clock (reads w)\<rparr>)))
    \<and> (\<forall>w (fn :: nat \<Rightarrow> js_value + 'a) label attempt e.
            fn (invoked w) = Inl e \<and> \<not> is429 e \<longrightarrow>
            (\<exists>w'. attempt_body cfg clock fn label attempt w = Return (Inl e) w'
               \<and> limits w' = limits w))
    \<and> (\<forall>w label. limits (pre_check clock label w) = limits w)
    \<and> (\<forall>w (fn :: nat \<Rightarrow> js_value + 'a) label e.
            0 \<le> maxRetries cfg \<and> fst (call cfg clock fn label w) = Inl e \<and> is429 e \<longrightarrow>
            (\<exists>w0. fn (invoked (snd (call cfg clock fn label w)) - 1) = Inl e
               \<and> getState label (snd (call cfg clock fn label w))
                   = Some (exhausted_entry cfg clock label e (nat (maxRetries cfg)) w0)
               \<and> reads (snd (call cfg clock fn label w))
                   = Suc (Suc (reads (snd (getWaitMs cfg clock e (nat (maxRetries cfg)) w0))))))
    \<and> store_ok cfg clock initial
    \<and> (\<forall>w (fn :: nat \<Rightarrow> js_value + 'a) label attempt r e w'.
            store_ok cfg clock w \<and> int attempt \<le> maxRetries cfg \<and> 2 * attempt \<le> reads w \<longrightarrow>
            attempt_body cfg clock fn label attempt w = Return r w'
              \<or> attempt_body cfg clock fn label attempt w = Continue e w' \<longrightarrow>
            store_ok cfg clock w')
    \<and> (\<forall>w (fn :: nat \<Rightarrow> js_value + 'a) label. store_ok cfg clock w \<longrightarrow>
            store_ok cfg clock (snd (call cfg clock fn label w)))
    \<and> (\<forall>w label st. store_ok cfg clock w \<and> getState label w = Some st \<longrightarrow>
            endpoint st = label
          \<and> (remaining st = 0 \<or> remaining st = 1)
          \<and> (remaining st = 1 \<longrightarrow> resetAt st = 0)
          \<and> (remaining st = 0 \<longrightarrow>
               (\<exists>err attempt w0. is429 err \<and> int attempt \<le> maxRetries cfg
                  \<and> st = exhausted_entry cfg clock label err attempt w0
                  \<and> clock (reads (snd (getWaitMs cfg clock err attempt w0))) < resetAt st)))"
proof -
  have limited: "\<exists>w'. attempt_body cfg clock fn label attempt w = Continue e w'
               \<and> limits w' = (limits w)(label \<mapsto>
                   \<lparr>endpoint = label, remaining = 0,
                    resetAt = clock (reads (snd (getWaitMs cfg clock e attempt w)))
                              + fst (getWaitMs cfg clock e attempt w),
                    lastHit = clock (Suc (reads (snd (getWaitMs cfg clock e attempt w))))\<rparr>)
               \<and> clock (reads (snd (getWaitMs cfg clock e attempt w)))
                   < clock (reads (snd (getWaitMs cfg clock e attempt w)))
                     + fst (getWaitMs cfg clock e attempt w)"
    if "fn (invoked w) = Inl e \<and> is429 e"
    for w and fn :: "nat \<Rightarrow> js_value + 'a" and label attempt e
    using body_429_exact [of fn w e cfg clock label attempt] that
      getWaitMs_pos [OF assms, of clock e attempt w]
    by (auto simp add: exhausted_entry_def)
  have succeeded: "\<exists>w'. attempt_body cfg clock fn label attempt w = Return (Inr r) w'
               \<and> limits w' = (limits w)(label \<mapsto>
                   \<lparr>endpoint = label, remaining = 1, resetAt = 0,
                    lastHit = clock (reads w)\<rparr>)"
    if "fn (invoked w) = Inr r"
    for w and fn :: "nat \<Rightarrow> js_value + 'a" and label attempt r
    using body_success [of fn w r cfg clock label attempt, OF that] by simp
  have other: "\<exists>w'. attempt_body cfg clock fn label attempt w = Return (Inl e) w'
               \<and> limits w' = limits w"
    if "fn (invoked w) = Inl e \<and> \<not> is429 e"
    for w and fn :: "nat \<Rightarrow> js_value + 'a" and label attempt e
    using body_other [of fn w e cfg clock label attempt] that by simp
  have pre: "limits (pre_check clock label w) = limits w" for w label
    by (rule pre_check_limits)
  have gave_up: "\<exists>w0. fn (invoked (snd (call cfg clock fn label w)) - 1) = Inl e
               \<and> getState label (snd (call cfg clock fn label w))
                   = Some (exhausted_entry cfg clock label e (nat (maxRetries cfg)) w0)
               \<and> reads (snd (call cfg clock fn label w))
                   = Suc (Suc (reads (snd (getWaitMs cfg clock e (nat (maxRetries cfg)) w0))))"
    if "0 \<le> maxRetries cfg \<and> fst (call cfg clock fn label w) = Inl e \<and> is429 e"
    for w and fn :: "nat \<Rightarrow> js_value + 'a" and label e
    using attempts_throws_429 [of cfg clock fn label 0 JsUndefined "pre_check clock label w" e]
      that
    by (simp add: call_def getState_def)
  have init: "store_ok cfg clock initial"
    by (simp add: store_ok_def initial_def)
  have body: "store_ok cfg clock w'"
    if "store_ok cfg clock w \<and> int attempt \<le> maxRetries cfg \<and> 2 * attempt \<le> reads w"
      and "attempt_body cfg clock fn label attempt w = Return r w'
            \<or> attempt_body cfg clock fn label attempt w = Continue e w'"
    for w and fn :: "nat \<Rightarrow> js_value + 'a" and label attempt r e w'
    using body_store_ok [OF assms, of clock w attempt fn label] that by auto
  have whole: "store_ok cfg clock (snd (call cfg clock fn label w))"
    if "store_ok cfg clock w" for w and fn :: "nat \<Rightarrow> js_value + 'a" and label
    unfolding call_def
    using attempts_store_ok [OF assms pre_check_store_ok [OF that], of 0] by simp
  have meaning: "endpoint st = label
          \<and> (remaining st = 0 \<or> remaining st = 1)
          \<and> (remaining st = 1 \<longrightarrow> resetAt st = 0)
          \<and> (remaining st = 0 \<longrightarrow>
               (\<exists>err attempt w0. is429 err \<and> int attempt \<le> maxRetries cfg
                  \<and> st = exhausted_entry cfg clock label err attempt w0
                  \<and> clock (reads (snd (getWaitMs cfg clock err attempt w0))) < resetAt st))"
    if "store_ok cfg clock w \<and> getState label w = Some st" for w label st
  proof -
    from that have "entry_ok cfg clock (reads w) label st"
      by (simp add: store_ok_def getState_def)
    then consider
      (healthy) i where
        "st = \<lparr>endpoint = label, remaining = 1, resetAt = 0, lastHit = clock i\<rparr>"
    | (exhausted) err attempt w0 where "is429 err" "int attempt \<le> maxRetries cfg"
        "st = exhausted_entry cfg clock label err attempt w0"
        "clock (reads (snd (getWaitMs cfg clock err attempt w0))) < resetAt st"
      unfolding entry_ok_def by blast
    then show ?thesis
    proof cases
      case healthy
      then show ?thesis by simp
    next
      case exhausted
      have "\<exists>err attempt w0. is429 err \<and> int attempt \<le> maxRetries cfg
                  \<and> st = exhausted_entry cfg clock label err attempt w0
                  \<and> clock (reads (snd (getWaitMs cfg clock err attempt w0))) < resetAt st"
        using exhausted by blast
      moreover have "endpoint st = label" "remaining st = 0"
        using exhausted(3) by (simp_all add: exhausted_entry_def)
      ultimately show ?thesis by simp
    qed
  qed
  show ?thesis
    apply (intro conjI allI impI)
    subgoal for w fn label attempt e by (rule limited)
    subgoal for w fn label attempt r by (rule succeeded)
    subgoal for w fn label attempt e by (rule other)
    subgoal for w label by (rule pre)
    subgoal for w fn label e by (rule gave_up)
    subgoal by (rule init)
    subgoal for w fn label attempt r e w' by (rule body)
    subgoal for w fn label by (rule whole)
    subgoal for w label st using meaning [of w label st] by blast
    subgoal for w label st using meaning [of w label st] by blast
    subgoal for w label st using meaning [of w label st] by blast
    subgoal for w label st using meaning [of w label st] by blast
    done
qed


theorem store_invariant_witness:
  "0 < baseDelay \<lparr>maxRetries = 2, baseDelay = 100\<rparr>
   \<and> (case attempt_body \<lparr>maxRetries = 2, baseDelay = 100\<rparr> (\<lambda>n. 1000 + real n)
          (\<lambda>k. Inl (JsError ''HTTP 429: Too Many Requests'' NoHeaders) :: js_value + unit)
          ''search'' 0 initial of
         Continue e w' \<Rightarrow> getState ''search'' w'
       | Return r w' \<Rightarrow> None)
       = Some \<lparr>endpoint = ''search'', remaining = 0, resetAt = 1100, lastHit = 1001\<rparr>
   \<and> getState ''search''
        (snd (call \<lparr>maxRetries = 2, baseDelay = 100\<rparr> (\<lambda>n. 1000 + real n)
          (\<lambda>k. Inl (JsError ''HTTP 429: Too Many Requests'' NoHeaders) :: js_value + unit)
          ''search'' initial))
       = Some \<lparr>endpoint = ''search'', remaining = 0, resetAt = 1404, lastHit = 1005\<rparr>
   \<and> store_ok \<lparr>maxRetries = 2, baseDelay = 100\<rparr> (\<lambda>n. 1000 + real n)
        (snd (call \<lparr>maxRetries = 2, baseDelay = 100\<rparr> (\<lambda>n. 1000 + real n)
          (\<lambda>k. Inl (JsError ''HTTP 429: Too Many Requests'' NoHeaders) :: js_value + unit)
          ''search'' initial))"
proof -
  let ?cfg = "\<lparr>maxRetries = 2, baseDelay = 100\<rparr>"
  let ?clock = "\<lambda>n. 1000 + real n"
  let ?e = "JsError ''HTTP 429: Too Many Requests'' NoHeaders"
  let ?fn = "\<lambda>k. Inl ?e :: js_value + unit"
  let ?c = "call ?cfg ?clock ?fn ''search'' initial"
  have pos: "0 < baseDelay ?cfg" by simp
  have e: "is429 ?e" by simp
  have g: "getWaitMs ?cfg ?clock ?e a w = (100 * 2 ^ a, w)" for a w
    by (simp add: getWaitMs_def extractResetSeconds_def)
  note inv = store_invariant [OF pos, of ?clock, where 'a = unit]
  note c1 = inv [THEN conjunct1, rule_format]
  note c5 = inv [THEN conjunct2, THEN conjunct2, THEN conjunct2, THEN conjunct2,
      THEN conjunct1, rule_format]
  note c6 = inv [THEN conjunct2, THEN conjunct2, THEN conjunct2, THEN conjunct2,
      THEN conjunct2, THEN conjunct1]
  note c8 = inv [THEN conjunct2, THEN conjunct2, THEN conjunct2, THEN conjunct2,
      THEN conjunct2, THEN conjunct2, THEN conjunct2, THEN conjunct1, rule_format]
  have "\<exists>w'. attempt_body ?cfg ?clock ?fn ''search'' 0 initial = Continue ?e w'
      \<and> limits w' = (limits initial)(''search'' \<mapsto>
           \<lparr>endpoint = ''search'', remaining = 0, resetAt = 1100, lastHit = 1001\<rparr>)"
    using c1 [where w = initial and fn = ?fn and e = ?e and label = "''search''"
        and attempt = 0] e
    by (simp add: g initial_def)
  then have first: "(case attempt_body ?cfg ?clock ?fn ''search'' 0 initial of
         Continue e w' \<Rightarrow> getState ''search'' w'
       | Return r w' \<Rightarrow> None)
       = Some \<lparr>endpoint = ''search'', remaining = 0, resetAt = 1100, lastHit = 1001\<rparr>"
    by (auto simp add: getState_def)
  have thrown: "fst ?c = Inl ?e" by code_simp
  have taken: "reads (snd ?c) = 6" by code_simp
  have "\<exists>w0. getState ''search'' (snd ?c)
                   = Some (exhausted_entry ?cfg ?clock ''search'' ?e (nat (maxRetries ?cfg)) w0)
               \<and> reads (snd ?c)
                   = Suc (Suc (reads (snd (getWaitMs ?cfg ?clock ?e (nat (maxRetries ?cfg)) w0))))"
    using c5 [where w = initial and fn = ?fn and e = ?e and label = "''search''"] e thrown
    by auto
  then have last: "getState ''search'' (snd ?c)
       = Some \<lparr>endpoint = ''search'', remaining = 0, resetAt = 1404, lastHit = 1005\<rparr>"
    using taken by (auto simp add: g exhausted_entry_def)
  have "store_ok ?cfg ?clock (snd ?c)"
    using c8 [where w = initial and fn = ?fn and label = "''search''"] c6 by simp
  with pos first last show ?thesis by blast
qed

section \<open>Properties of the backoff policy and of the reset hint\<close>


lemma parseInt_digits:
  assumes "ds \<noteq> []" and "\<forall>c\<in>set ds. isDigit c"
  shows "parseInt ds = Num (real (decimal ds))"
proof -
  from assms obtain c cs where ds: "ds = c # cs" by (cases ds) auto
  with assms(2) have c: "isDigit c" by simp
  have nw: "\<not> isWhiteSpace c"
    using c by (auto simp: isDigit_def isWhiteSpace_def)
  have ns: "c \<noteq> CHR ''-''" "c \<noteq> CHR ''+''"
    using c by (auto simp: isDigit_def)
  have t: "takeWhile isDigit ds = ds"
    using assms(2) by (simp add: takeWhile_eq_all_conv)
  have n2: "c \<noteq> CHR 0xC2" "c \<noteq> CHR 0xE1" "c \<noteq> CHR 0xE2" "c \<noteq> CHR 0xE3"
      "c \<noteq> CHR 0xEF"
    using c by (auto simp: isDigit_def)
  have d: "skipWhiteSpace ds = ds"
    unfolding ds using nw n2
    by (cases "(c # cs)" rule: skipWhiteSpace.cases)
       (auto simp add: isWhiteSpace2_def isWhiteSpace3_def)
  show ?thesis
    unfolding parseInt_def d Let_def using ns t ds by simp
qed

text \<open>
  Claim C4. The wait is \<open>hintSeconds * 1000 + 1000\<close> milliseconds when the error yields
  a hint that is a positive number, and \<open>baseDelay * 2 ^ attempt\<close> otherwise (no hint, a
  hint that is not a number, a hint of 0). With \<open>baseDelay = 100\<close> and no hint the waits
  for the attempts 0, 1, 2 are 100, 200, 400.
\<close>

theorem getWaitMs_formula:
  "(\<forall>h. fst (extractResetSeconds clock err w) = Some (Num h) \<and> 0 < h \<longrightarrow>
        fst (getWaitMs cfg clock err attempt w) = h * 1000 + 1000)
   \<and> ((\<forall>h. fst (extractResetSeconds clock err w) = Some (Num h) \<longrightarrow> \<not> 0 < h) \<longrightarrow>
        fst (getWaitMs cfg clock err attempt w) = baseDelay cfg * 2 ^ attempt)
   \<and> (baseDelay cfg = 100 \<and> fst (extractResetSeconds clock err w) = None \<longrightarrow>
        fst (getWaitMs cfg clock err 0 w) = 100
      \<and> fst (getWaitMs cfg clock err 1 w) = 200
      \<and> fst (getWaitMs cfg clock err 2 w) = 400)"
proof -
  obtain hint w' where x: "extractResetSeconds clock err w = (hint, w')"
    by (cases "extractResetSeconds clock err w")
  have hinted: "fst (getWaitMs cfg clock err a w) = h * 1000 + 1000"
    if "hint = Some (Num h)" and "0 < h" for h a
    using that x by (simp add: getWaitMs_def)
  have backoff: "fst (getWaitMs cfg clock err a w) = baseDelay cfg * 2 ^ a"
    if "\<forall>h. hint = Some (Num h) \<longrightarrow> \<not> 0 < h" for a
  proof (cases hint)
    case None
    with x show ?thesis by (simp add: getWaitMs_def)
  next
    case (Some v)
    show ?thesis
    proof (cases v)
      case NaN
      with Some x show ?thesis by (simp add: getWaitMs_def)
    next
      case (Num h)
      with Some that have "\<not> 0 < h" by simp
      with Some Num x show ?thesis by (simp add: getWaitMs_def)
    qed
  qed
  have table: "fst (getWaitMs cfg clock err 0 w) = 100
      \<and> fst (getWaitMs cfg clock err 1 w) = 200
      \<and> fst (getWaitMs cfg clock err 2 w) = 400"
    if "baseDelay cfg = 100" and "hint = None"
    using backoff [of 0] backoff [of 1] backoff [of 2] that by simp
  from hinted backoff table x show ?thesis by simp
qed

theorem getWaitMs_formula_witness:
  "fst (extractResetSeconds (\<lambda>n. 4000) (JsError ''HTTP 429'' (HeadersObject (Some ''10'')))
         initial) = Some (Num 6)
   \<and> fst (getWaitMs \<lparr>maxRetries = 2, baseDelay = 100\<rparr> (\<lambda>n. 4000)
         (JsError ''HTTP 429'' (HeadersObject (Some ''10''))) 1 initial) = 7000
   \<and> fst (extractResetSeconds (\<lambda>n. 4000) (JsError ''HTTP 429: Too Many Requests'' NoHeaders)
         initial) = None
   \<and> fst (getWaitMs \<lparr>maxRetries = 2, baseDelay = 100\<rparr> (\<lambda>n. 4000)
         (JsError ''HTTP 429: Too Many Requests'' NoHeaders) 0 initial) = 100
   \<and> fst (getWaitMs \<lparr>maxRetries = 2, baseDelay = 100\<rparr> (\<lambda>n. 4000)
         (JsError ''HTTP 429: Too Many Requests'' NoHeaders) 1 initial) = 200
   \<and> fst (getWaitMs \<lparr>maxRetries = 2, baseDelay = 100\<rparr> (\<lambda>n. 4000)
         (JsError ''HTTP 429: Too Many Requests'' NoHeaders) 2 initial) = 400"
proof -
  have a: "fst (extractResetSeconds (\<lambda>n. 4000)
        (JsError ''HTTP 429'' (HeadersObject (Some ''10''))) initial) = Some (Num 6)"
    by code_simp
  have b: "fst (extractResetSeconds (\<lambda>n. 4000)
        (JsError ''HTTP 429: Too Many Requests'' NoHeaders) initial) = None"
    by (simp add: extractResetSeconds_def)
  from getWaitMs_formula [where clock = "\<lambda>n. 4000" and w = initial
      and err = "JsError ''HTTP 429'' (HeadersObject (Some ''10''))"
      and cfg = "\<lparr>maxRetries = 2, baseDelay = 100\<rparr>" and attempt = 1] a
  have c: "fst (getWaitMs \<lparr>maxRetries = 2, baseDelay = 100\<rparr> (\<lambda>n. 4000)
         (JsError ''HTTP 429'' (HeadersObject (Some ''10''))) 1 initial) = 7000"
    by simp
  from getWaitMs_formula [where clock = "\<lambda>n. 4000" and w = initial
      and err = "JsError ''HTTP 429: Too Many Requests'' NoHeaders"
      and cfg = "\<lparr>maxRetries = 2, baseDelay = 100\<rparr>"] b
  have d: "fst (getWaitMs \<lparr>maxRetries = 2, baseDelay = 100\<rparr> (\<lambda>n. 4000)
         (JsError ''HTTP 429: Too Many Requests'' NoHeaders) 0 initial) = 100
   \<and> fst (getWaitMs \<lparr>maxRetries = 2, baseDelay = 100\<rparr> (\<lambda>n. 4000)
         (JsError ''HTTP 429: Too Many Requests'' NoHeaders) 1 initial) = 200
   \<and> fst (getWaitMs \<lparr>maxRetries = 2, baseDelay = 100\<rparr> (\<lambda>n. 4000)
         (JsError ''HTTP 429: Too Many Requests'' NoHeaders) 2 initial) = 400"
    by simp
  from a b c d show ?thesis by blast
qed

text \<open>
  Claim C7, as the code has it. When the error is an object whose \<open>headers\<close> property is an
  object with a non-empty \<open>x-rate-limit-reset\<close> entry, one clock reading \<open>now\<close> is taken and
  the result is \<open>max 0 ((n * 1000 - now) / 1000)\<close> if \<open>parseInt\<close> reads the integer \<open>n\<close> from
  the entry, and NaN (not null) if \<open>parseInt\<close> reads no integer from it. In every other
  case (no headers, headers that are not an object, no entry, an empty entry) the result
  is null and the clock is not read.
\<close>

theorem extractResetSeconds_result:
  "(\<forall>reset n. headers_of err = HeadersObject (Some reset) \<and> reset \<noteq> [] \<and> parseInt reset = Num n \<longrightarrow>
       extractResetSeconds clock err w =
         (Some (Num (max 0 ((n * 1000 - clock (reads w)) / 1000))), w\<lparr>reads := Suc (reads w)\<rparr>))
   \<and> (\<forall>reset. headers_of err = HeadersObject (Some reset) \<and> reset \<noteq> [] \<and> parseInt reset = NaN \<longrightarrow>
       extractResetSeconds clock err w = (Some NaN, w\<lparr>reads := Suc (reads w)\<rparr>))
   \<and> ((\<forall>reset. headers_of err = HeadersObject (Some reset) \<longrightarrow> reset = []) \<longrightarrow>
       extractResetSeconds clock err w = (None, w))"
  by (auto simp add: extractResetSeconds_def date_now_def Let_def
      split: js_headers.splits option.splits)

theorem extractResetSeconds_result_witness:
  "parseInt ''10'' = Num 10
   \<and> fst (extractResetSeconds (\<lambda>n. 4000) (JsError ''HTTP 429'' (HeadersObject (Some ''10'')))
         initial) = Some (Num 6)
   \<and> parseInt ''soon'' = NaN
   \<and> fst (extractResetSeconds (\<lambda>n. 4000) (JsError ''HTTP 429'' (HeadersObject (Some ''soon'')))
         initial) = Some NaN
   \<and> fst (extractResetSeconds (\<lambda>n. 4000) (JsError ''HTTP 429'' NoHeaders) initial) = None"
proof -
  have a: "parseInt ''10'' = Num 10" by code_simp
  have b: "parseInt ''soon'' = NaN" by code_simp
  from extractResetSeconds_result [where err = "JsError ''HTTP 429'' (HeadersObject (Some ''10''))"
      and clock = "\<lambda>n. 4000" and w = initial] a
  have c: "fst (extractResetSeconds (\<lambda>n. 4000) (JsError ''HTTP 429'' (HeadersObject (Some ''10'')))
         initial) = Some (Num 6)" by simp
  from extractResetSeconds_result [where err = "JsError ''HTTP 429'' (HeadersObject (Some ''soon''))"
      and clock = "\<lambda>n. 4000" and w = initial] b
  have d: "fst (extractResetSeconds (\<lambda>n. 4000) (JsError ''HTTP 429'' (HeadersObject (Some ''soon'')))
         initial) = Some NaN" by simp
  from extractResetSeconds_result [where err = "JsError ''HTTP 429'' NoHeaders"
      and clock = "\<lambda>n. 4000" and w = initial]
  have e: "fst (extractResetSeconds (\<lambda>n. 4000) (JsError ''HTTP 429'' NoHeaders) initial) = None"
    by simp
  from a b c d e show ?thesis by blast
qed

theorem extractResetSeconds_unparsable_counterexample:
  "parseInt ''soon'' = NaN
   \<and> fst (extractResetSeconds (\<lambda>n. 4000) (JsError ''HTTP 429'' (HeadersObject (Some ''soon'')))
         initial) \<noteq> None"
proof -
  have "parseInt ''soon'' = NaN" by code_simp
  moreover have "fst (extractResetSeconds (\<lambda>n. 4000)
      (JsError ''HTTP 429'' (HeadersObject (Some ''soon''))) initial) = Some NaN"
    by code_simp
  ultimately show ?thesis by simp
qed

section \<open>Properties of the scheduler client and of the article metrics\<close>


lemma request_non_2xx:
  assumes "fetch \<lparr>req_url = baseUrl this @ path, req_method = method,
                req_headers = [(''Content-Type'', ''application/json''),
                               (''Authorization'', ''Bearer '' @ apiKey this)],
                req_body = body\<rparr> = Inr res"
    and "\<not> res_ok res"
  shows "request this fetch method path body =
      (Inl (JsError (''Scheduler '' @ method @ '' '' @ path @ '': '' @ show_nat (status res)
                       @ '' '' @ (case res_text res of Inl e \<Rightarrow> [] | Inr t \<Rightarrow> t)) NoHeaders),
       [\<lparr>req_url = baseUrl this @ path, req_method = method,
                req_headers = [(''Content-Type'', ''application/json''),
                               (''Authorization'', ''Bearer '' @ apiKey this)],
                req_body = body\<rparr>])"
  using assms by (simp add: request_def Let_def)

lemma request_single_fetch:
  "length (snd (request this fetch method path body)) = 1"
  by (simp add: request_def Let_def split: sum.splits)

lemma health_any_status:
  assumes "fetch \<lparr>req_url = baseUrl this @ ''/health'', req_method = ''GET'',
                req_headers = [], req_body = None\<rparr> = Inr res"
  shows "fst (health this fetch) = res_json res"
  using assms by (simp add: health_def Let_def)


text \<open>
  Claim C8 at the health route. The scheduler answers \<open>GET /health\<close> with status 503 and
  the body "down". \<open>health\<close> does not look at the status: it returns what parsing the body
  as JSON gives, here the parser's error, whose message names neither the method, nor the
  path, nor the status, nor the body. The same answer to \<open>POST /schedule\<close> makes
  \<open>schedule\<close> throw the descriptive error.
\<close>

theorem health_ignores_status:
  "fst (health \<lparr>baseUrl = ''https://example.com'', apiKey = ''key''\<rparr>
         (\<lambda>req. Inr \<lparr>status = 503, res_text = Inr ''down'',
                       res_json = Inl (JsError ''Unexpected token d in JSON at position 0''
                                         NoHeaders) :: js_value + unit\<rparr>))
     = Inl (JsError ''Unexpected token d in JSON at position 0'' NoHeaders)
   \<and> \<not> str_includes ''Unexpected token d in JSON at position 0'' ''503''
   \<and> \<not> str_includes ''Unexpected token d in JSON at position 0'' ''/health''
   \<and> fst (schedule \<lparr>baseUrl = ''https://example.com'', apiKey = ''key''\<rparr>
         (\<lambda>req. Inr \<lparr>status = 503, res_text = Inr ''down'',
                       res_json = Inl (JsError ''Unexpected token d in JSON at position 0''
                                         NoHeaders) :: js_value + unit\<rparr>) ''{}'')
     = Inl (JsError ''Scheduler POST /schedule: 503 down'' NoHeaders)"
  by code_simp

subsection \<open>The rating, in the arithmetic of doubles\<close>


lemma rnd_bounds:
  assumes dr: "double_rounding rnd" and "1 / 2 ^ 60 \<le> x" and "x \<le> 2 ^ 60"
  shows "x - x / 2 ^ 53 \<le> rnd x" and "rnd x \<le> x + x / 2 ^ 53"
proof -
  from dr assms(2,3) have "\<bar>rnd x - x\<bar> \<le> x / 2 ^ 53"
    unfolding double_rounding_def by blast
  then show "x - x / 2 ^ 53 \<le> rnd x" and "rnd x \<le> x + x / 2 ^ 53" by linarith+
qed


lemma rate_enclosure:
  fixes b i :: int
  assumes dr: "double_rounding rnd"
    and b: "1 \<le> b" "b \<le> 2 ^ 48" and i: "1 \<le> i" "i \<le> 2 ^ 48"
  shows "\<bar>rnd (rnd (real_of_int b / real_of_int i) * 100)
            - real_of_int b / real_of_int i * 100\<bar>
         \<le> real_of_int b / real_of_int i * 100 * 3 / 2 ^ 53"
proof -
  define x where "x = real_of_int b / real_of_int i"
  define u :: real where "u = 1 / 2 ^ 53"
  define w where "w = 1 / real_of_int i"
  have ipos: "0 < real_of_int i" and ile: "real_of_int i \<le> 2 ^ 48"
    and bpos: "1 \<le> real_of_int b" and ble: "real_of_int b \<le> 2 ^ 48"
    using b i by simp_all
  have wlo: "1 / 2 ^ 48 \<le> w"
    unfolding w_def using ipos ile by (simp add: field_simps)
  have whi: "w \<le> 1"
    unfolding w_def using i(1) by simp
  have xw: "x = real_of_int b * w"
    by (simp add: x_def w_def)
  have xlo: "1 / 2 ^ 48 \<le> x"
  proof -
    have "0 \<le> w" using wlo by simp
    then have "1 * w \<le> real_of_int b * w"
      using bpos by (intro mult_right_mono)
    then have "w \<le> x" by (simp add: xw)
    with wlo show ?thesis by linarith
  qed
  have xhi: "x \<le> 2 ^ 48"
  proof -
    have "real_of_int b * w \<le> real_of_int b * 1"
      using bpos whi by (intro mult_left_mono) simp_all
    then have "x \<le> real_of_int b" by (simp add: xw)
    with ble show ?thesis by linarith
  qed
  have upos: "0 < u" and u1: "u \<le> 1 / 2"
    by (simp_all add: u_def)
  have r1: "x - x * u \<le> rnd x" "rnd x \<le> x + x * u"
    using rnd_bounds [OF dr, of x] xlo xhi by (simp_all add: u_def)
  define p where "p = x * u"
  have ppos: "0 \<le> p" and pu: "p * u \<le> p" and px: "p \<le> x / 2"
  proof -
    show "0 \<le> p" unfolding p_def using xlo upos by simp
    then have "p * u \<le> p * 1" using u1 by (intro mult_left_mono) simp_all
    then show "p * u \<le> p" by simp
    have "x * u \<le> x * (1 / 2)" using xlo u1 by (intro mult_left_mono) simp_all
    then show "p \<le> x / 2" by (simp add: p_def)
  qed
  define y where "y = rnd x * 100"
  have r1p: "x - p \<le> rnd x" "rnd x \<le> x + p"
    using r1 by (simp_all add: p_def)
  have x48: "(1 :: real) / 2 ^ 48 = 4096 / 2 ^ 60" "(2 :: real) ^ 48 * 4096 = 2 ^ 60"
    by simp_all
  have ylo: "1 / 2 ^ 60 \<le> y" and yhi: "y \<le> 2 ^ 60" and yx: "y \<le> 100 * x + 100 * p"
    unfolding y_def using r1p px xlo xhi x48 by linarith+
  have r2: "y - y * u \<le> rnd y" "rnd y \<le> y + y * u"
    using rnd_bounds [OF dr ylo yhi] by (simp_all add: u_def)
  have "y * u \<le> (100 * x + 100 * p) * u"
    using yx upos by (intro mult_right_mono) simp_all
  then have yu: "y * u \<le> 100 * p + 100 * p" using pu by (simp add: p_def algebra_simps)
  have "\<bar>rnd y - x * 100\<bar> \<le> 300 * p"
    using r2 yu r1p unfolding y_def by linarith
  moreover have "300 * p = x * 100 * 3 / 2 ^ 53"
    by (simp add: p_def u_def)
  ultimately show ?thesis unfolding y_def x_def by simp
qed

lemma rate_below:
  fixes b i T :: int
  assumes dr: "double_rounding rnd"
    and b: "1 \<le> b" "b \<le> 2 ^ 48" and i: "1 \<le> i" "i \<le> 2 ^ 48"
    and T: "T \<le> 8"
    and lt: "100 * b < T * i"
  shows "rnd (rnd (real_of_int b / real_of_int i) * 100) < real_of_int T"
proof -
  define x where "x = real_of_int b / real_of_int i"
  define u :: real where "u = 1 / 2 ^ 53"
  define w where "w = 1 / real_of_int i"
  have ipos: "0 < real_of_int i" and ile: "real_of_int i \<le> 2 ^ 48"
    using i by simp_all
  have wlo: "1 / 2 ^ 48 \<le> w"
    unfolding w_def using ipos ile by (simp add: field_simps)
  have xw: "x = real_of_int b * w"
    by (simp add: x_def w_def)
  have upos: "0 < u" and u24: "24 * u < 1 / 2 ^ 48"
    by (simp_all add: u_def)
  have enc: "rnd (rnd x * 100) \<le> x * 100 + 3 * (x * 100 * u)"
    using rate_enclosure [OF dr b i] by (simp add: x_def u_def)
  have zle: "100 * x \<le> real_of_int T - w"
  proof -
    from lt have "100 * b + 1 \<le> T * i" by simp
    then have "real_of_int (100 * b + 1) \<le> real_of_int (T * i)" by (simp only: of_int_le_iff)
    then have "(100 * real_of_int b + 1) * w \<le> (real_of_int T * real_of_int i) * w"
      using wlo by (intro mult_right_mono) simp_all
    moreover have iw: "real_of_int i * w = 1" unfolding w_def using ipos by simp
    moreover have "(real_of_int T * real_of_int i) * w = real_of_int T"
      by (simp only: mult.assoc iw mult_1_right)
    moreover have "(100 * real_of_int b + 1) * w = 100 * x + w"
      by (simp add: xw algebra_simps)
    ultimately show ?thesis by linarith
  qed
  have "100 * x * u \<le> (real_of_int T - w) * u"
    using zle upos by (intro mult_right_mono) simp_all
  also have "\<dots> \<le> real_of_int T * u"
    using wlo upos by (simp add: algebra_simps)
  also have "\<dots> \<le> 8 * u"
    using T upos by (intro mult_right_mono) simp_all
  finally have "x * 100 * u \<le> 8 * u" by (simp add: algebra_simps)
  with enc zle u24 wlo have "rnd (rnd x * 100) < real_of_int T" by linarith
  then show ?thesis by (simp only: x_def)
qed

lemma rate_above:
  fixes b i :: int
  assumes dr: "double_rounding rnd" and i: "1 \<le> i"
    and c: "c \<le> rnd c" and T: "rnd T = T" and cT: "c * 100 = T"
    and ge: "T \<le> real_of_int b / real_of_int i * 100"
  shows "T \<le> rnd (rnd (real_of_int b / real_of_int i) * 100)"
proof -
  from dr have mono: "\<And>x y. x \<le> y \<Longrightarrow> rnd x \<le> rnd y"
    unfolding double_rounding_def by blast
  define x where "x = real_of_int b / real_of_int i"
  from ge cT have "c \<le> x" unfolding x_def [symmetric] by linarith
  from mono [OF this] c have "c \<le> rnd x" by linarith
  with cT have "T \<le> rnd x * 100" by linarith
  from mono [OF this] T show ?thesis by (simp add: x_def)
qed

lemma rate_threshold:
  fixes b i :: int
  assumes dr: "double_rounding rnd"
    and b: "0 \<le> b" "b \<le> 2 ^ 48" and i: "1 \<le> i" "i \<le> 2 ^ 48"
  shows "8 \<le> rnd (rnd (real_of_int b / real_of_int i) * 100)
           \<longleftrightarrow> 8 \<le> real_of_int b / real_of_int i * 100"
    and "5 \<le> rnd (rnd (real_of_int b / real_of_int i) * 100)
           \<longleftrightarrow> 5 \<le> real_of_int b / real_of_int i * 100"
    and "2 \<le> rnd (rnd (real_of_int b / real_of_int i) * 100)
           \<longleftrightarrow> 2 \<le> real_of_int b / real_of_int i * 100"
proof -
  from dr have fixed: "rnd 0 = 0" "rnd 2 = 2" "rnd 5 = 5" "rnd 8 = 8"
    and near: "2 / 25 \<le> rnd (2 / 25)" "1 / 20 \<le> rnd (1 / 20)" "1 / 50 \<le> rnd (1 / 50)"
    unfolding double_rounding_def by blast+
  have ipos: "0 < real_of_int i" using i by simp
  have below: "rnd (rnd (real_of_int b / real_of_int i) * 100) < real_of_int T"
    if "T \<le> 8" and "0 < T" and "real_of_int b / real_of_int i * 100 < real_of_int T" for T :: int
  proof (cases "b = 0")
    case True
    with fixed that(2) show ?thesis by simp
  next
    case False
    with b have b1: "1 \<le> b" by simp
    from that(3) ipos have "real_of_int b * 100 < real_of_int T * real_of_int i"
      by (simp add: field_simps)
    then have "real_of_int (100 * b) < real_of_int (T * i)" by (simp add: algebra_simps)
    then have "100 * b < T * i" by (simp only: of_int_less_iff)
    from rate_below [OF dr b1 b(2) i that(1) this] show ?thesis .
  qed
  show "8 \<le> rnd (rnd (real_of_int b / real_of_int i) * 100)
           \<longleftrightarrow> 8 \<le> real_of_int b / real_of_int i * 100"
    using below [of 8] rate_above [OF dr i(1) near(1) fixed(4), of b] by force
  show "5 \<le> rnd (rnd (real_of_int b / real_of_int i) * 100)
           \<longleftrightarrow> 5 \<le> real_of_int b / real_of_int i * 100"
    using below [of 5] rate_above [OF dr i(1) near(2) fixed(3), of b] by force
  show "2 \<le> rnd (rnd (real_of_int b / real_of_int i) * 100)
           \<longleftrightarrow> 2 \<le> real_of_int b / real_of_int i * 100"
    using below [of 2] rate_above [OF dr i(1) near(3) fixed(2), of b] by force
qed


lemma rate_thresholds_exact:
  assumes dr: "double_rounding rnd"
    and b: "0 \<le> bookmarks m" "bookmarks m \<le> 2 ^ 48"
    and i: "0 \<le> impressions m" "impressions m \<le> 2 ^ 48"
  shows "8 \<le> bookmark_rate rnd m \<longleftrightarrow> 8 \<le> exact_rate m"
    and "5 \<le> bookmark_rate rnd m \<longleftrightarrow> 5 \<le> exact_rate m"
    and "2 \<le> bookmark_rate rnd m \<longleftrightarrow> 2 \<le> exact_rate m"
    and "\<bar>bookmark_rate rnd m - exact_rate m\<bar> \<le> exact_rate m * 3 / 2 ^ 53"
proof -
  show "8 \<le> bookmark_rate rnd m \<longleftrightarrow> 8 \<le> exact_rate m"
    using rate_threshold(1) [OF dr b, of "impressions m"] i
    by (cases "impressions m = 0") (simp_all add: bookmark_rate_def exact_rate_def)
  show "5 \<le> bookmark_rate rnd m \<longleftrightarrow> 5 \<le> exact_rate m"
    using rate_threshold(2) [OF dr b, of "impressions m"] i
    by (cases "impressions m = 0") (simp_all add: bookmark_rate_def exact_rate_def)
  show "2 \<le> bookmark_rate rnd m \<longleftrightarrow> 2 \<le> exact_rate m"
    using rate_threshold(3) [OF dr b, of "impressions m"] i
    by (cases "impressions m = 0") (simp_all add: bookmark_rate_def exact_rate_def)
  show "\<bar>bookmark_rate rnd m - exact_rate m\<bar> \<le> exact_rate m * 3 / 2 ^ 53"
  proof (cases "impressions m = 0")
    case True
    then show ?thesis by (simp add: bookmark_rate_def exact_rate_def)
  next
    case False
    with i have i1: "1 \<le> impressions m" by simp
    show ?thesis
    proof (cases "bookmarks m = 0")
      case True
      from dr have "rnd 0 = 0" unfolding double_rounding_def by blast
      with True i1 show ?thesis by (simp add: bookmark_rate_def exact_rate_def)
    next
      case False
      with b have "1 \<le> bookmarks m" by simp
      from rate_enclosure [OF dr this b(2) i1 i(2)] i1 show ?thesis
        by (simp add: bookmark_rate_def exact_rate_def)
    qed
  qed
qed

text \<open>
  Claim C9. For a tweet with metrics, counts from 0 to \<open>2 ^ 48\<close>, and the arithmetic
  of doubles: the bookmark rate the code computes is bookmarks / impressions * 100 up to
  the rounding of the division and of the multiplication (a relative error of at most
  \<open>3 / 2 ^ 53\<close>), and 0 when impressions is 0; the rating is exceptional exactly when
  bookmarks / impressions * 100 is at least 8, good exactly when it is at least 5 and
  below 8, ok exactly when it is at least 2 and below 5, failed exactly when it is below
  2; so zero impressions give the rating failed.
\<close>

theorem measureArticle_rating:
  assumes "metrics t = Some m" and "double_rounding rnd"
    and "0 \<le> bookmarks m" and "bookmarks m \<le> 2 ^ 48"
    and "0 \<le> impressions m" and "impressions m \<le> 2 ^ 48"
  shows "\<exists>a. measureArticle rnd (Some t) = Some a
     \<and> \<bar>bookmark_rate rnd m - exact_rate m\<bar> \<le> exact_rate m * 3 / 2 ^ 53
     \<and> (rating a = Exceptional \<longleftrightarrow> 8 \<le> exact_rate m)
     \<and> (rating a = Good \<longleftrightarrow> 5 \<le> exact_rate m \<and> exact_rate m < 8)
     \<and> (rating a = Ok \<longleftrightarrow> 2 \<le> exact_rate m \<and> exact_rate m < 5)
     \<and> (rating a = Failed \<longleftrightarrow> exact_rate m < 2)
     \<and> (impressions m = 0 \<longrightarrow> bookmark_rate rnd m = 0 \<and> rating a = Failed)"
proof -
  note th = rate_thresholds_exact [OF assms(2-6)]
  have r: "(rating_of x = Exceptional \<longleftrightarrow> 8 \<le> x)
      \<and> (rating_of x = Good \<longleftrightarrow> 5 \<le> x \<and> x < 8)
      \<and> (rating_of x = Ok \<longleftrightarrow> 2 \<le> x \<and> x < 5)
      \<and> (rating_of x = Failed \<longleftrightarrow> x < 2)" for x :: real
    by (simp add: rating_of_def)
  have z: "bookmark_rate rnd m = 0 \<and> rating_of (bookmark_rate rnd m) = Failed"
    if "impressions m = 0"
    using that by (simp add: bookmark_rate_def rating_of_def)
  have e: "(rating_of (bookmark_rate rnd m) = Exceptional \<longleftrightarrow> 8 \<le> exact_rate m)
      \<and> (rating_of (bookmark_rate rnd m) = Good \<longleftrightarrow> 5 \<le> exact_rate m \<and> exact_rate m < 8)
      \<and> (rating_of (bookmark_rate rnd m) = Ok \<longleftrightarrow> 2 \<le> exact_rate m \<and> exact_rate m < 5)
      \<and> (rating_of (bookmark_rate rnd m) = Failed \<longleftrightarrow> exact_rate m < 2)"
    using r [of "bookmark_rate rnd m"] th(1,2,3) by (simp add: not_le [symmetric])
  have "\<exists>a. measureArticle rnd (Some t) = Some a
      \<and> rating a = rating_of (bookmark_rate rnd m)"
    using assms(1) by (simp add: measureArticle_def)
  then obtain a where a: "measureArticle rnd (Some t) = Some a"
    "rating a = rating_of (bookmark_rate rnd m)" by blast
  from e z have "(rating a = Exceptional \<longleftrightarrow> 8 \<le> exact_rate m)
     \<and> (rating a = Good \<longleftrightarrow> 5 \<le> exact_rate m \<and> exact_rate m < 8)
     \<and> (rating a = Ok \<longleftrightarrow> 2 \<le> exact_rate m \<and> exact_rate m < 5)
     \<and> (rating a = Failed \<longleftrightarrow> exact_rate m < 2)
     \<and> (impressions m = 0 \<longrightarrow> bookmark_rate rnd m = 0 \<and> rating a = Failed)"
    unfolding a(2) by blast
  with a(1) th(4) show ?thesis by blast
qed

theorem measureArticle_rating_witness:
  "double_rounding (\<lambda>x. x)
   \<and> map_option rating (measureArticle (\<lambda>x. x) (Some \<lparr>tweet_id = ''1'', tweet_text = ''hello'',
        authorId = None, authorUsername = None, createdAt = None,
        metrics = Some \<lparr>likes = 3, retweets = 1, replies = 0, quotes = 0, bookmarks = 21,
                       impressions = 228\<rparr>\<rparr>)) = Some Exceptional
   \<and> map_option rating (measureArticle (\<lambda>x. x) (Some \<lparr>tweet_id = ''2'', tweet_text = ''hello'',
        authorId = None, authorUsername = None, createdAt = None,
        metrics = Some \<lparr>likes = 3, retweets = 1, replies = 0, quotes = 0, bookmarks = 5,
                       impressions = 0\<rparr>\<rparr>)) = Some Failed"
proof -
  let ?m1 = "\<lparr>likes = 3, retweets = 1, replies = 0, quotes = 0, bookmarks = 21,
                       impressions = 228\<rparr>"
  let ?m2 = "\<lparr>likes = 3, retweets = 1, replies = 0, quotes = 0, bookmarks = 5,
                       impressions = 0\<rparr>"
  let ?t1 = "\<lparr>tweet_id = ''1'', tweet_text = ''hello'',
        authorId = None, authorUsername = None, createdAt = None, metrics = Some ?m1\<rparr>"
  let ?t2 = "\<lparr>tweet_id = ''2'', tweet_text = ''hello'',
        authorId = None, authorUsername = None, createdAt = None, metrics = Some ?m2\<rparr>"
  have dr: "double_rounding (\<lambda>x. x)"
    by (simp add: double_rounding_def)
  have r1: "8 \<le> exact_rate ?m1" by (simp add: exact_rate_def)
  from measureArticle_rating [of ?t1 ?m1, OF _ dr] r1
  have a: "map_option rating (measureArticle (\<lambda>x. x) (Some ?t1)) = Some Exceptional" by auto
  from measureArticle_rating [of ?t2 ?m2, OF _ dr]
  have b: "map_option rating (measureArticle (\<lambda>x. x) (Some ?t2)) = Some Failed" by auto
  from dr a b show ?thesis by simp
qed

section \<open>Properties of the credentials check\<close>


lemma falsy_iff: "falsy v \<longleftrightarrow> v = None \<or> v = Some []"
  by (cases v) simp_all

lemma missing_keys:
  "map fst (filter (\<lambda>(k, v). falsy v) (map (\<lambda>(var, key). (key, env var)) vars))
     = map snd (filter (\<lambda>(var, key). falsy (env var)) vars)"
  by (induction vars) auto

lemma required_as_map:
  "[(''consumerKey'', env ''X_CONSUMER_KEY''),
    (''consumerSecret'', env ''X_CONSUMER_SECRET''),
    (''accessToken'', env ''X_ACCESS_TOKEN''),
    (''accessTokenSecret'', env ''X_ACCESS_TOKEN_SECRET''),
    (''bearerToken'', env ''X_BEARER_TOKEN'')]
   = map (\<lambda>(var, key). (key, env var)) required_vars"
  by (simp add: required_vars_def)

lemma envFromProcess_unfold:
  "envFromProcess env =
    (if filter (\<lambda>(var, key). falsy (env var)) required_vars \<noteq> [] then
       Inl (JsError (''Missing env vars: ''
              @ join '', '' (map snd (filter (\<lambda>(var, key). falsy (env var)) required_vars)))
            NoHeaders)
     else
       Inr \<lparr>consumerKey = env ''X_CONSUMER_KEY'',
            consumerSecret = env ''X_CONSUMER_SECRET'',
            accessToken = env ''X_ACCESS_TOKEN'',
            accessTokenSecret = env ''X_ACCESS_TOKEN_SECRET'',
            bearerToken = env ''X_BEARER_TOKEN'',
            schedulerUrl = (case env ''SCHEDULER_URL'' of
                              Some u \<Rightarrow> Some u
                            | None \<Rightarrow> env ''SCHEDULER_API_URL''),
            schedulerKey = env ''SCHEDULER_API_KEY''\<rparr>)"
  unfolding envFromProcess_def required_as_map Let_def missing_keys by simp

text \<open>
  Claim C10, as the code has it. A required variable is missing when it is unset or set
  to the empty string. If at least one is missing, \<open>envFromProcess\<close> throws an Error whose
  message is "Missing env vars: " followed by the names of the fields of the result that
  the missing variables fill (consumerKey for X_CONSUMER_KEY, and so on), in the order of
  declaration and separated by ", ". Otherwise it returns a result whose five fields hold
  the five values, none of them empty.
\<close>

theorem envFromProcess_result:
  "((\<exists>var \<in> fst ` set required_vars. env var = None \<or> env var = Some []) \<longrightarrow>
      envFromProcess env =
        Inl (JsError (''Missing env vars: ''
               @ join '', '' (map snd (filter (\<lambda>(var, key). env var = None \<or> env var = Some [])
                                          required_vars)))
             NoHeaders))
   \<and> ((\<forall>var \<in> fst ` set required_vars. \<exists>v. env var = Some v \<and> v \<noteq> []) \<longrightarrow>
      (\<exists>r. envFromProcess env = Inr r
         \<and> consumerKey r = env ''X_CONSUMER_KEY'' \<and> consumerKey r \<noteq> None \<and> consumerKey r \<noteq> Some []
         \<and> consumerSecret r = env ''X_CONSUMER_SECRET'' \<and> consumerSecret r \<noteq> None
             \<and> consumerSecret r \<noteq> Some []
         \<and> accessToken r = env ''X_ACCESS_TOKEN'' \<and> accessToken r \<noteq> None
             \<and> accessToken r \<noteq> Some []
         \<and> accessTokenSecret r = env ''X_ACCESS_TOKEN_SECRET'' \<and> accessTokenSecret r \<noteq> None
             \<and> accessTokenSecret r \<noteq> Some []
         \<and> bearerToken r = env ''X_BEARER_TOKEN'' \<and> bearerToken r \<noteq> None
             \<and> bearerToken r \<noteq> Some []))"
proof (intro conjI impI)
  assume "\<exists>var \<in> fst ` set required_vars. env var = None \<or> env var = Some []"
  then have "filter (\<lambda>(var, key). falsy (env var)) required_vars \<noteq> []"
    by (auto simp add: filter_empty_conv falsy_iff)
  then show "envFromProcess env =
        Inl (JsError (''Missing env vars: ''
               @ join '', '' (map snd (filter (\<lambda>(var, key). env var = None \<or> env var = Some [])
                                          required_vars)))
             NoHeaders)"
    by (simp add: envFromProcess_unfold falsy_iff)
next
  assume a: "\<forall>var \<in> fst ` set required_vars. \<exists>v. env var = Some v \<and> v \<noteq> []"
  then have "filter (\<lambda>(var, key). falsy (env var)) required_vars = []"
    by (auto simp add: filter_empty_conv falsy_iff)
  moreover from a have "env ''X_CONSUMER_KEY'' \<noteq> None \<and> env ''X_CONSUMER_KEY'' \<noteq> Some []"
    "env ''X_CONSUMER_SECRET'' \<noteq> None \<and> env ''X_CONSUMER_SECRET'' \<noteq> Some []"
    "env ''X_ACCESS_TOKEN'' \<noteq> None \<and> env ''X_ACCESS_TOKEN'' \<noteq> Some []"
    "env ''X_ACCESS_TOKEN_SECRET'' \<noteq> None \<and> env ''X_ACCESS_TOKEN_SECRET'' \<noteq> Some []"
    "env ''X_BEARER_TOKEN'' \<noteq> None \<and> env ''X_BEARER_TOKEN'' \<noteq> Some []"
    by (auto simp add: required_vars_def)
  ultimately show "\<exists>r. envFromProcess env = Inr r
         \<and> consumerKey r = env ''X_CONSUMER_KEY'' \<and> consumerKey r \<noteq> None \<and> consumerKey r \<noteq> Some []
         \<and> consumerSecret r = env ''X_CONSUMER_SECRET'' \<and> consumerSecret r \<noteq> None
             \<and> consumerSecret r \<noteq> Some []
         \<and> accessToken r = env ''X_ACCESS_TOKEN'' \<and> accessToken r \<noteq> None
             \<and> accessToken r \<noteq> Some []
         \<and> accessTokenSecret r = env ''X_ACCESS_TOKEN_SECRET'' \<and> accessTokenSecret r \<noteq> None
             \<and> accessTokenSecret r \<noteq> Some []
         \<and> bearerToken r = env ''X_BEARER_TOKEN'' \<and> bearerToken r \<noteq> None
             \<and> bearerToken r \<noteq> Some []"
    by (simp add: envFromProcess_unfold)
qed

theorem envFromProcess_result_witness:
  "envFromProcess [''X_CONSUMER_SECRET'' \<mapsto> ''s'', ''X_ACCESS_TOKEN'' \<mapsto> ''t'',
       ''X_ACCESS_TOKEN_SECRET'' \<mapsto> ''u'', ''X_BEARER_TOKEN'' \<mapsto> '''']
     = Inl (JsError ''Missing env vars: consumerKey, bearerToken'' NoHeaders)
   \<and> map_sum id consumerKey
       (envFromProcess [''X_CONSUMER_KEY'' \<mapsto> ''k'', ''X_CONSUMER_SECRET'' \<mapsto> ''s'',
          ''X_ACCESS_TOKEN'' \<mapsto> ''t'', ''X_ACCESS_TOKEN_SECRET'' \<mapsto> ''u'',
          ''X_BEARER_TOKEN'' \<mapsto> ''b''])
     = Inr (Some ''k'')"
proof -
  let ?e1 = "[''X_CONSUMER_SECRET'' \<mapsto> ''s'', ''X_ACCESS_TOKEN'' \<mapsto> ''t'',
       ''X_ACCESS_TOKEN_SECRET'' \<mapsto> ''u'', ''X_BEARER_TOKEN'' \<mapsto> '''']"
  let ?e2 = "[''X_CONSUMER_KEY'' \<mapsto> ''k'', ''X_CONSUMER_SECRET'' \<mapsto> ''s'',
          ''X_ACCESS_TOKEN'' \<mapsto> ''t'', ''X_ACCESS_TOKEN_SECRET'' \<mapsto> ''u'',
          ''X_BEARER_TOKEN'' \<mapsto> ''b'']"
  from envFromProcess_result [of ?e1]
  have a: "envFromProcess ?e1
     = Inl (JsError ''Missing env vars: consumerKey, bearerToken'' NoHeaders)"
    by (simp add: required_vars_def)
  from envFromProcess_result [of ?e2]
  have b: "map_sum id consumerKey (envFromProcess ?e2) = Inr (Some ''k'')"
    by (auto simp add: required_vars_def)
  from a b show ?thesis by simp
qed

theorem envFromProcess_message_counterexample:
  "envFromProcess [''X_CONSUMER_SECRET'' \<mapsto> ''s'', ''X_ACCESS_TOKEN'' \<mapsto> ''t'',
       ''X_ACCESS_TOKEN_SECRET'' \<mapsto> ''u'', ''X_BEARER_TOKEN'' \<mapsto> ''b'']
     = Inl (JsError ''Missing env vars: consumerKey'' NoHeaders)
   \<and> \<not> str_includes ''Missing env vars: consumerKey'' ''X_CONSUMER_KEY''"
  by code_simp

end
